theory Spec2Isabelle
  imports Complex_Main "HOL-Library.AList" "HOL-Library.Sublist" "HOL-Library.Multiset"
begin

section \<open>Python values: exceptions and log records\<close>

text \<open>
  An exception is a value carrying what the handlers of the program read from it:
  \<^verbatim>\<open>type(e).__name__\<close> and \<^verbatim>\<open>str(e)\<close>. The values of this type are the instances of
  Python's \<^verbatim>\<open>Exception\<close>, which is what every \<^verbatim>\<open>except Exception\<close> clause of the program
  catches; process-control signals (\<^verbatim>\<open>KeyboardInterrupt\<close>, \<^verbatim>\<open>SystemExit\<close>) are not values of it.
\<close>

datatype py_exception = PyExc (exc_type: string) (exc_msg: string)

text \<open>The text \<^verbatim>\<open>f"{type(e).__name__}: {str(e)}"\<close> built by two handlers.\<close>

definition exc_text :: "py_exception \<Rightarrow> string" where
  "exc_text e = exc_type e @ '': '' @ exc_msg e"

datatype log_level = DEBUG | INFO | WARNING | ERROR

type_synonym log_record = "log_level \<times> string"

section \<open>Paths (pathlib)\<close>

text \<open>
  A path is the list of its components below the directory the process runs in; no
  component is \<^verbatim>\<open>.\<close> or \<^verbatim>\<open>..\<close>. Python's \<^verbatim>\<open>str\<close> is modelled by \<^typ>\<open>string\<close>, read as the
  bytes of its UTF-8 encoding, in which a file name reaches the operating system.
\<close>

type_synonym path = "string list"

fun path_str :: "path \<Rightarrow> string" where
  "path_str [] = ''.''"
| "path_str [x] = x"
| "path_str (x # y # ys) = x @ ''/'' @ path_str (y # ys)"

definition name :: "path \<Rightarrow> string" where
  "name p = (if p = [] then [] else last p)"

definition parent :: "path \<Rightarrow> path" where
  "parent p = butlast p"

text \<open>\<^verbatim>\<open>str.rfind('.')\<close>: the index of the last dot, or \<open>-1\<close>.\<close>

definition rfind_dot :: "string \<Rightarrow> int" where
  "rfind_dot s =
     (if CHR ''.'' \<in> set s
      then int (length s) - 1 - int (length (takeWhile (\<lambda>c. c \<noteq> CHR ''.'') (rev s)))
      else - 1)"

text \<open>\<^verbatim>\<open>PurePath.suffix\<close>: the last dot and what follows it, unless the dot is first or last.\<close>

definition suffix_of :: "path \<Rightarrow> string" where
  "suffix_of p =
     (let nm = name p; i = rfind_dot nm
      in if 0 < i \<and> i < int (length nm) - 1 then drop (nat i) nm else [])"

definition lower_char :: "char \<Rightarrow> char" where
  "lower_char c =
     (let n = (of_char c :: nat) in if 65 \<le> n \<and> n \<le> 90 then char_of (n + 32) else c)"

text \<open>
  \<^verbatim>\<open>str.lower\<close>: the letters A to Z, and U+212A KELVIN SIGN (the bytes E2 84 AA), the one
  character outside ASCII whose lower case is an ASCII letter. The lower case of any other
  character outside ASCII still has a character outside ASCII; such a character is kept as
  it is, which is all the same to the look-up in \<^verbatim>\<open>CONVERTER_MAP\<close>, whose keys are ASCII.
\<close>

fun lower :: "string \<Rightarrow> string" where
  "lower (a # b # c # cs) =
     (if a = CHR 0xE2 \<and> b = CHR 0x84 \<and> c = CHR 0xAA then CHR ''k'' # lower cs
      else lower_char a # lower (b # c # cs))"
| "lower (a # cs) = lower_char a # lower cs"
| "lower [] = []"

text \<open>\<^verbatim>\<open>PurePath.relative_to\<close> raises \<^verbatim>\<open>ValueError\<close> when the base is not a prefix.\<close>

definition relative_to :: "path \<Rightarrow> path \<Rightarrow> py_exception + path" where
  "relative_to p base =
     (if prefix base p then Inr (drop (length base) p)
      else Inl (PyExc ''ValueError''
             (path_str p @ '' is not in the subpath of '' @ path_str base)))"

text \<open>\<^verbatim>\<open>PurePath.with_suffix\<close> raises \<^verbatim>\<open>ValueError\<close> on a path with an empty name.\<close>

definition with_suffix :: "path \<Rightarrow> string \<Rightarrow> py_exception + path" where
  "with_suffix p sfx =
     (let nm = name p; old = suffix_of p
      in if nm = [] then Inl (PyExc ''ValueError'' (path_str p @ '' has an empty name''))
         else Inr (butlast p @
                [if old = [] then nm @ sfx else take (length nm - length old) nm @ sfx]))"

text \<open>
  The paths of the configuration are plain strings. \<^verbatim>\<open>os.path.dirname\<close> cuts such a string
  after its last separator and strips the separators at the end of what is left, unless it
  consists of separators only; the components of a relative path string are what stands
  between its separators, the empty ones and \<^verbatim>\<open>.\<close> left out.
\<close>

definition os_path_dirname :: "string \<Rightarrow> string" where
  "os_path_dirname p =
     (let head = rev (dropWhile (\<lambda>c. c \<noteq> CHR ''/'') (rev p))
      in if head \<noteq> [] \<and> head \<noteq> replicate (length head) CHR ''/''
         then rev (dropWhile (\<lambda>c. c = CHR ''/'') (rev head))
         else head)"

fun split_sep :: "string \<Rightarrow> string list" where
  "split_sep [] = [[]]"
| "split_sep (c # cs) =
     (if c = CHR ''/'' then [] # split_sep cs
      else (c # hd (split_sep cs)) # tl (split_sep cs))"

definition components :: "string \<Rightarrow> path" where
  "components s = filter (\<lambda>x. x \<noteq> [] \<and> x \<noteq> ''.'') (split_sep s)"

section \<open>The file system\<close>

text \<open>
  The directory tree the program reads and writes: a file holds its contents, a directory
  the list of its entries in the order the operating system lists them (\<^const>\<open>map_of\<close>
  finds the first entry of a name). What the logger writes is kept apart from the tree, as
  the list of the records logged; the temporary directories of third-party libraries are
  outside it, and access rights and symbolic links are not modelled.
\<close>

datatype node = is_File: File string | is_Dir: Dir "(string \<times> node) list"

fun lookup :: "node \<Rightarrow> path \<Rightarrow> node option" where
  "lookup n [] = Some n"
| "lookup (File c) (x # xs) = None"
| "lookup (Dir es) (x # xs) = (case map_of es x of None \<Rightarrow> None | Some n \<Rightarrow> lookup n xs)"

text \<open>What the tree holds at a path: something, a regular file.\<close>

definition exists :: "node \<Rightarrow> path \<Rightarrow> bool" where
  "exists t p = (lookup t p \<noteq> None)"


subsection \<open>System calls\<close>

text \<open>
  The errors of the system calls the program makes, and the exception Python raises for
  each: a subclass of \<^verbatim>\<open>OSError\<close> named after the error, plain \<^verbatim>\<open>OSError\<close> for
  \<^verbatim>\<open>ENAMETOOLONG\<close>, with the message and the path of the call between quotes (the way
  Python shows a path of plain characters).
\<close>

datatype errno = ENOENT | ENOTDIR | EEXIST | EISDIR | ENAMETOOLONG

definition os_error :: "errno \<Rightarrow> path \<Rightarrow> py_exception" where
  "os_error e p =
     PyExc
       (case e of ENOENT \<Rightarrow> ''FileNotFoundError'' | ENOTDIR \<Rightarrow> ''NotADirectoryError''
        | EEXIST \<Rightarrow> ''FileExistsError'' | EISDIR \<Rightarrow> ''IsADirectoryError''
        | ENAMETOOLONG \<Rightarrow> ''OSError'')
       ((case e of ENOENT \<Rightarrow> ''[Errno 2] No such file or directory''
         | ENOTDIR \<Rightarrow> ''[Errno 20] Not a directory'' | EEXIST \<Rightarrow> ''[Errno 17] File exists''
         | EISDIR \<Rightarrow> ''[Errno 21] Is a directory''
         | ENAMETOOLONG \<Rightarrow> ''[Errno 36] File name too long'')
        @ '': '' @ [CHR 0x27] @ path_str p @ [CHR 0x27])"

text \<open>
  The limits of the operating system (Linux): a name of more than \<open>NAME_MAX\<close> bytes is
  refused where it is looked up, which is after the names before it have been found, and a
  path of \<open>PATH_MAX\<close> bytes or more is refused at once.
\<close>

definition NAME_MAX :: nat where
  "NAME_MAX = 255"

definition PATH_MAX :: nat where
  "PATH_MAX = 4096"

text \<open>\<^verbatim>\<open>stat\<close>: the node a path leads to.\<close>

fun stat_at :: "node \<Rightarrow> path \<Rightarrow> errno + node" where
  "stat_at n [] = Inr n"
| "stat_at (File c) (x # xs) = Inl ENOTDIR"
| "stat_at (Dir es) (x # xs) =
     (if NAME_MAX < length x then Inl ENAMETOOLONG
      else case map_of es x of None \<Rightarrow> Inl ENOENT | Some n \<Rightarrow> stat_at n xs)"

definition os_stat :: "node \<Rightarrow> path \<Rightarrow> errno + node" where
  "os_stat t p = (if PATH_MAX \<le> length (path_str p) then Inl ENAMETOOLONG else stat_at t p)"

text \<open>
  \<^verbatim>\<open>Path.exists\<close>, \<^verbatim>\<open>Path.is_file\<close> and \<^verbatim>\<open>Path.is_dir\<close> answer \<^verbatim>\<open>False\<close> when \<^verbatim>\<open>stat\<close> fails
  with \<^verbatim>\<open>ENOENT\<close> or \<^verbatim>\<open>ENOTDIR\<close> and raise its other errors; \<^verbatim>\<open>os.path.exists\<close> and
  \<^verbatim>\<open>os.path.isdir\<close> answer \<^verbatim>\<open>False\<close> on every error.
\<close>

definition Path_test :: "(node \<Rightarrow> bool) \<Rightarrow> node \<Rightarrow> path \<Rightarrow> py_exception + bool" where
  "Path_test kind t p =
     (case os_stat t p of
        Inr n \<Rightarrow> Inr (kind n)
      | Inl e \<Rightarrow> if e = ENOENT \<or> e = ENOTDIR then Inr False else Inl (os_error e p))"

definition Path_exists :: "node \<Rightarrow> path \<Rightarrow> py_exception + bool" where
  "Path_exists = Path_test (\<lambda>n. True)"

definition Path_is_file :: "node \<Rightarrow> path \<Rightarrow> py_exception + bool" where
  "Path_is_file = Path_test is_File"

definition Path_is_dir :: "node \<Rightarrow> path \<Rightarrow> py_exception + bool" where
  "Path_is_dir = Path_test is_Dir"

definition os_path_exists :: "node \<Rightarrow> path \<Rightarrow> bool" where
  "os_path_exists t p = (case os_stat t p of Inr n \<Rightarrow> True | Inl e \<Rightarrow> False)"

definition os_path_isdir :: "node \<Rightarrow> path \<Rightarrow> bool" where
  "os_path_isdir t p = (case os_stat t p of Inr n \<Rightarrow> is_Dir n | Inl e \<Rightarrow> False)"

text \<open>\<^verbatim>\<open>os.mkdir\<close>: one new, empty directory, in a directory that exists.\<close>

fun mkdir_at :: "node \<Rightarrow> path \<Rightarrow> errno + node" where
  "mkdir_at n [] = Inl EEXIST"
| "mkdir_at (File c) (x # xs) = Inl ENOTDIR"
| "mkdir_at (Dir es) (x # xs) =
     (if NAME_MAX < length x then Inl ENAMETOOLONG
      else case map_of es x of
             None \<Rightarrow> if xs = [] then Inr (Dir (AList.update x (Dir []) es)) else Inl ENOENT
           | Some n \<Rightarrow>
               (case mkdir_at n xs of
                  Inl e \<Rightarrow> Inl e
                | Inr n' \<Rightarrow> Inr (Dir (AList.update x n' es))))"

definition os_mkdir :: "node \<Rightarrow> path \<Rightarrow> errno + node" where
  "os_mkdir t p = (if PATH_MAX \<le> length (path_str p) then Inl ENAMETOOLONG else mkdir_at t p)"

text \<open>
  \<^verbatim>\<open>Path.mkdir(parents=True, exist_ok=True)\<close>, as pathlib does it: \<^verbatim>\<open>os.mkdir\<close>; on
  \<^verbatim>\<open>FileNotFoundError\<close> the parent is made in the same way and the directory is made after
  it; on any other \<^verbatim>\<open>OSError\<close> the error is dropped when the path is a directory and raised
  when it is not. An error comes with the tree as it is by then: the directories made
  before it stay.
\<close>

definition mkdir_handler :: "errno \<Rightarrow> path \<Rightarrow> node \<Rightarrow> (py_exception \<times> node) + node" where
  "mkdir_handler e p t =
     (case Path_is_dir t p of
        Inl e' \<Rightarrow> Inl (e', t)
      | Inr d \<Rightarrow> if d then Inr t else Inl (os_error e p, t))"

definition mkdir_leaf :: "path \<Rightarrow> node \<Rightarrow> (py_exception \<times> node) + node" where
  "mkdir_leaf p t =
     (case os_mkdir t p of
        Inr t' \<Rightarrow> Inr t'
      | Inl e \<Rightarrow> if e = ENOENT then Inl (os_error e p, t) else mkdir_handler e p t)"

function mkdir_p :: "path \<Rightarrow> node \<Rightarrow> (py_exception \<times> node) + node" where
  "mkdir_p p t =
     (case os_mkdir t p of
        Inr t' \<Rightarrow> Inr t'
      | Inl e \<Rightarrow>
          if e = ENOENT
          then (if p = [] then Inl (os_error e p, t)
                else (case mkdir_p (parent p) t of
                        Inl x \<Rightarrow> Inl x
                      | Inr t1 \<Rightarrow> mkdir_leaf p t1))
          else mkdir_handler e p t)"
  by pat_completeness auto
termination
  by (relation "measure (\<lambda>(p, t). length p)") (auto simp: parent_def)

declare mkdir_p.simps [simp del]

text \<open>
  \<^verbatim>\<open>os.makedirs(name, exist_ok=True)\<close>, as the \<^verbatim>\<open>os\<close> module does it: when the head of the
  path does not exist it is made first, where only a \<^verbatim>\<open>FileExistsError\<close> is passed over; then
  \<^verbatim>\<open>os.mkdir\<close>, whose error is dropped when the path is a directory.
\<close>

function os_makedirs :: "path \<Rightarrow> node \<Rightarrow> (py_exception \<times> node) + node" where
  "os_makedirs p t =
     (case (if p \<noteq> [] \<and> \<not> os_path_exists t (parent p)
            then (case os_makedirs (parent p) t of
                    Inl (e, t1) \<Rightarrow>
                      if exc_type e = ''FileExistsError'' then Inr t1 else Inl (e, t1)
                  | Inr t1 \<Rightarrow> Inr t1)
            else Inr t) of
        Inl x \<Rightarrow> Inl x
      | Inr t1 \<Rightarrow>
          (case os_mkdir t1 p of
             Inr t2 \<Rightarrow> Inr t2
           | Inl e \<Rightarrow> if os_path_isdir t1 p then Inr t1 else Inl (os_error e p, t1)))"
  by pat_completeness auto
termination
  by (relation "measure (\<lambda>(p, t). length p)") (auto simp: parent_def)

declare os_makedirs.simps [simp del]

text \<open>
  \<^verbatim>\<open>open(path, 'w')\<close> creates the file, or empties the one that is there; the path must
  not be a directory and its parent must be one.
\<close>

fun put_file :: "path \<Rightarrow> string \<Rightarrow> node \<Rightarrow> errno + node" where
  "put_file [] c n = Inl EISDIR"
| "put_file (x # xs) c (File c') = Inl ENOTDIR"
| "put_file [x] c (Dir es) =
     (if NAME_MAX < length x then Inl ENAMETOOLONG
      else case map_of es x of
             Some (Dir es') \<Rightarrow> Inl EISDIR
           | _ \<Rightarrow> Inr (Dir (AList.update x (File c) es)))"
| "put_file (x # y # ys) c (Dir es) =
     (if NAME_MAX < length x then Inl ENAMETOOLONG
      else case map_of es x of
             None \<Rightarrow> Inl ENOENT
           | Some n \<Rightarrow>
               (case put_file (y # ys) c n of
                  Inl e \<Rightarrow> Inl e
                | Inr n' \<Rightarrow> Inr (Dir (AList.update x n' es))))"

definition os_open_w :: "node \<Rightarrow> path \<Rightarrow> errno + node" where
  "os_open_w t p =
     (if PATH_MAX \<le> length (path_str p) then Inl ENAMETOOLONG else put_file p [] t)"

text \<open>\<^verbatim>\<open>open(path, 'rb')\<close> followed by \<^verbatim>\<open>f.read()\<close>.\<close>

definition read_file :: "node \<Rightarrow> path \<Rightarrow> py_exception + string" where
  "read_file t p =
     (case os_stat t p of
        Inl e \<Rightarrow> Inl (os_error e p)
      | Inr (Dir es) \<Rightarrow> Inl (os_error EISDIR p)
      | Inr (File c) \<Rightarrow> Inr c)"

text \<open>
  \<^verbatim>\<open>os.walk(top)\<close>, top-down: one triple \<open>(dirpath, dirs, files)\<close> for the directory, then the
  walks of its subdirectories. The walk lists a directory by the string it has joined for
  it, \<open>top\<close> and the names below it with a separator before each; a directory it cannot list
  (its string has \<open>PATH_MAX\<close> bytes or more) and anything that is not a directory yield
  nothing, without an error. The second argument is the path that string stands for.
\<close>

fun os_walk :: "string \<Rightarrow> path \<Rightarrow> node \<Rightarrow> (path \<times> string list \<times> string list) list" where
  "os_walk s tp (File c) = []"
| "os_walk s tp (Dir es) =
     (if PATH_MAX \<le> length s then []
      else (tp, map fst (filter (\<lambda>e. is_Dir (snd e)) es), map fst (filter (\<lambda>e. is_File (snd e)) es))
             # concat (map (\<lambda>e. os_walk (s @ ''/'' @ fst e) (tp @ [fst e]) (snd e)) es))"

text \<open>The state the program acts on: the directory tree and the records logged so far.\<close>

record world =
  fs :: node
  logged :: "log_record list"

definition log_to :: "log_level \<Rightarrow> string \<Rightarrow> world \<Rightarrow> world" where
  "log_to lvl msg w = w\<lparr>logged := logged w @ [(lvl, msg)]\<rparr>"

section \<open>converters/factory.py\<close>

datatype converter_class =
  PDFConverter | DOCXConverter | XLSXConverter | PPTXConverter
  | HTMLConverter | MarkdownConverter | EPUBConverter | MOBIConverter

definition CONVERTER_MAP :: "(string \<times> converter_class) list" where
  "CONVERTER_MAP =
     [(''.pdf'', PDFConverter), (''.docx'', DOCXConverter), (''.xlsx'', XLSXConverter),
      (''.pptx'', PPTXConverter), (''.html'', HTMLConverter), (''.htm'', HTMLConverter),
      (''.md'', MarkdownConverter), (''.markdown'', MarkdownConverter),
      (''.epub'', EPUBConverter), (''.mobi'', MOBIConverter)]"

text \<open>A converter instance: its class and its \<^verbatim>\<open>preserve_structure\<close> attribute.\<close>

type_synonym converter = "converter_class \<times> bool"

definition get_converter :: "path \<Rightarrow> bool \<Rightarrow> converter option" where
  "get_converter file_path preserve =
     (let extension = lower (suffix_of file_path)
      in case map_of CONVERTER_MAP extension of
           Some converter_class \<Rightarrow> Some (converter_class, preserve)
         | None \<Rightarrow> None)"

definition is_supported :: "path \<Rightarrow> bool" where
  "is_supported file_path =
     (let extension = lower (suffix_of file_path) in map_of CONVERTER_MAP extension \<noteq> None)"

section \<open>External collaborators\<close>

text \<open>
  What the program calls and does not define: the third-party parser behind each
  \<^verbatim>\<open>_extract_text\<close> (the text the method returns on the bytes of the input file, or the
  exception it raises), the two stages of the primary MOBI extraction (\<^verbatim>\<open>mobi.extract\<close>,
  whose extracted HTML file may be missing, and the pass over that HTML with BeautifulSoup
  that builds the text), \<^verbatim>\<open>bytes.decode('utf-8', errors='ignore')\<close>, the encoding of a text
  by the file object that writes it (the bytes, or the \<^verbatim>\<open>UnicodeEncodeError\<close> of a text
  that has no UTF-8 encoding, such as one with a lone surrogate), the line \<^verbatim>\<open>psutil\<close>
  reports for the memory status, and the float formatting \<^verbatim>\<open>:.1f\<close> of the success rate.
  They are parameters: every theorem holds for all of them.
\<close>

record libs =
  extract_lib :: "converter_class \<Rightarrow> bool \<Rightarrow> string \<Rightarrow> py_exception + string"
  mobi_extract :: "string \<Rightarrow> py_exception + string option"
  soup_text :: "bool \<Rightarrow> string \<Rightarrow> py_exception + string"
  utf8_decode_ignore :: "string \<Rightarrow> string"
  utf8_encode :: "string \<Rightarrow> py_exception + string"
  memory_status :: string
  format_1f :: "rat \<Rightarrow> string"

section \<open>converters/base.py and the converter classes\<close>

definition class_label :: "converter_class \<Rightarrow> string" where
  "class_label c =
     (case c of PDFConverter \<Rightarrow> ''PDF'' | DOCXConverter \<Rightarrow> ''DOCX'' | XLSXConverter \<Rightarrow> ''XLSX''
      | PPTXConverter \<Rightarrow> ''PPTX'' | HTMLConverter \<Rightarrow> ''HTML'' | MarkdownConverter \<Rightarrow> ''Markdown''
      | EPUBConverter \<Rightarrow> ''EPUB'' | MOBIConverter \<Rightarrow> ''MOBI'')"

text \<open>
  \<^verbatim>\<open>_validate_input\<close>; it has no handler of its own, so what \<^verbatim>\<open>Path.exists\<close> or
  \<^verbatim>\<open>Path.is_file\<close> raises goes to its caller.
\<close>

definition validate_input :: "path \<Rightarrow> world \<Rightarrow> (py_exception + bool) \<times> world" where
  "validate_input input_path w =
     (case Path_exists (fs w) input_path of
        Inl e \<Rightarrow> (Inl e, w)
      | Inr there \<Rightarrow>
          if \<not> there
          then (Inr False,
                log_to ERROR (''Input file does not exist: '' @ path_str input_path) w)
          else (case Path_is_file (fs w) input_path of
                  Inl e \<Rightarrow> (Inl e, w)
                | Inr regular \<Rightarrow>
                    if \<not> regular
                    then (Inr False,
                          log_to ERROR (''Input path is not a file: '' @ path_str input_path) w)
                    else (Inr True, w)))"

text \<open>
  \<^verbatim>\<open>with open(output_path, 'w', encoding='utf-8') as f: f.write(text)\<close>: the file is
  created or emptied, then the text is encoded and written. When the encoding raises, the
  file stays, empty.
\<close>

definition write_file :: "libs \<Rightarrow> path \<Rightarrow> string \<Rightarrow> node \<Rightarrow> (py_exception \<times> node) + node" where
  "write_file L p text t =
     (case os_open_w t p of
        Inl e \<Rightarrow> Inl (os_error e p, t)
      | Inr t1 \<Rightarrow>
          (case utf8_encode L text of
             Inl e \<Rightarrow> Inl (e, t1)
           | Inr bytes \<Rightarrow>
               (case put_file p bytes t1 of
                  Inl e \<Rightarrow> Inl (os_error e p, t1)
                | Inr t2 \<Rightarrow> Inr t2)))"

text \<open>
  \<^verbatim>\<open>_write_output\<close>: the whole body is inside \<^verbatim>\<open>try\<close>; what was made before the failure,
  directories or the empty file, stays.
\<close>

definition write_output :: "libs \<Rightarrow> string \<Rightarrow> path \<Rightarrow> world \<Rightarrow> bool \<times> world" where
  "write_output L text output_path w =
     (case mkdir_p (parent output_path) (fs w) of
        Inl (e, t1) \<Rightarrow>
          (False, log_to ERROR
             (''Failed to write output to '' @ path_str output_path @ '': '' @ exc_msg e)
             (w\<lparr>fs := t1\<rparr>))
      | Inr t1 \<Rightarrow>
          (case write_file L output_path text t1 of
             Inl (e, t2) \<Rightarrow>
               (False, log_to ERROR
                  (''Failed to write output to '' @ path_str output_path @ '': '' @ exc_msg e)
                  (w\<lparr>fs := t2\<rparr>))
           | Inr t2 \<Rightarrow>
               (True, log_to DEBUG
                  (''Successfully wrote output to: '' @ path_str output_path)
                  (w\<lparr>fs := t2\<rparr>))))"

text \<open>
  \<^verbatim>\<open>MOBIConverter._extract_text\<close>: the primary extraction inside \<^verbatim>\<open>try\<close>; on any exception
  the handler logs it and returns the decoded raw bytes of the input file, or the empty
  string when even that read fails (bare \<^verbatim>\<open>except\<close>).
\<close>

definition mobi_primary :: "libs \<Rightarrow> bool \<Rightarrow> path \<Rightarrow> world \<Rightarrow> (py_exception + string) \<times> world" where
  "mobi_primary L preserve input_path w =
     (case read_file (fs w) input_path of
        Inl e \<Rightarrow> (Inl e, w)
      | Inr content \<Rightarrow>
          (case mobi_extract L content of
             Inl e \<Rightarrow> (Inl e, w)
           | Inr None \<Rightarrow>
               (Inr [], log_to ERROR
                  (''Failed to extract MOBI content from '' @ path_str input_path) w)
           | Inr (Some html_content) \<Rightarrow> (soup_text L preserve html_content, w)))"

definition mobi_extract_text :: "libs \<Rightarrow> bool \<Rightarrow> path \<Rightarrow> world \<Rightarrow> (py_exception + string) \<times> world" where
  "mobi_extract_text L preserve input_path w =
     (case mobi_primary L preserve input_path w of
        (Inr text, w1) \<Rightarrow> (Inr text, w1)
      | (Inl e, w1) \<Rightarrow>
          (let w2 = log_to ERROR (''Error extracting MOBI content: '' @ exc_msg e) w1
           in case read_file (fs w2) input_path of
                Inl e' \<Rightarrow> (Inr [], w2)
              | Inr content \<Rightarrow> (Inr (utf8_decode_ignore L content), w2)))"

text \<open>\<^verbatim>\<open>_extract_text\<close> of a converter: the MOBI code above, the library parser otherwise.\<close>

definition extract_text :: "libs \<Rightarrow> converter \<Rightarrow> path \<Rightarrow> world \<Rightarrow> (py_exception + string) \<times> world" where
  "extract_text L conv input_path w =
     (if fst conv = MOBIConverter then mobi_extract_text L (snd conv) input_path w
      else (case read_file (fs w) input_path of
              Inl e \<Rightarrow> (Inl e, w)
            | Inr content \<Rightarrow> (extract_lib L (fst conv) (snd conv) content, w)))"

text \<open>
  \<^verbatim>\<open>convert\<close>, the same code in every converter class up to the label in the log line:
  extract, write when the text is non-empty, and turn any exception into \<^verbatim>\<open>False\<close>.
\<close>

definition convert :: "libs \<Rightarrow> converter \<Rightarrow> path \<Rightarrow> path \<Rightarrow> world \<Rightarrow> (py_exception + bool) \<times> world" where
  "convert L conv input_path output_path w =
     (case extract_text L conv input_path w of
        (Inl e, w1) \<Rightarrow>
          (Inr False, log_to ERROR
             (''Error converting '' @ class_label (fst conv) @ '' '' @ path_str input_path
                @ '': '' @ exc_msg e) w1)
      | (Inr text, w1) \<Rightarrow>
          (if text \<noteq> [] then (case write_output L text output_path w1 of (b, w2) \<Rightarrow> (Inr b, w2))
           else (Inr False, w1)))"

text \<open>
  \<^verbatim>\<open>BaseConverter.safe_convert\<close>, over the abstract method \<^verbatim>\<open>convert\<close> of whatever subclass
  it is called on: the first argument is that method, which may return or raise. The
  handler takes what the validation raises as well.
\<close>

definition safe_convert_with ::
  "(path \<Rightarrow> path \<Rightarrow> world \<Rightarrow> (py_exception + bool) \<times> world)
     \<Rightarrow> path \<Rightarrow> path \<Rightarrow> world \<Rightarrow> (bool \<times> string option) \<times> world" where
  "safe_convert_with convert_method input_path output_path w =
     (case validate_input input_path w of
        (Inl e, w1) \<Rightarrow>
          ((False, Some (exc_text e)),
           log_to ERROR (''Error converting '' @ path_str input_path @ '': '' @ exc_text e) w1)
      | (Inr False, w1) \<Rightarrow> ((False, Some ''Invalid input file''), w1)
      | (Inr True, w1) \<Rightarrow>
          (case convert_method input_path output_path w1 of
             (Inr True, w2) \<Rightarrow> ((True, None), w2)
           | (Inr False, w2) \<Rightarrow> ((False, Some ''Conversion failed''), w2)
           | (Inl e, w2) \<Rightarrow>
               ((False, Some (exc_text e)),
                log_to ERROR (''Error converting '' @ path_str input_path @ '': '' @ exc_text e) w2)))"

definition safe_convert :: "libs \<Rightarrow> converter \<Rightarrow> path \<Rightarrow> path \<Rightarrow> world \<Rightarrow> (bool \<times> string option) \<times> world" where
  "safe_convert L conv = safe_convert_with (convert L conv)"

section \<open>core/batch_processor.py\<close>

record ConversionResult =
  input_path :: path
  output_path :: path
  success :: bool
  error :: "string option"

record BatchProcessor =
  input_folder :: path
  output_folder :: path
  batch_size :: int
  preserve_structure :: bool
  skip_on_error :: bool
  overwrite_existing :: bool
  max_memory_bytes :: rat

text \<open>
  \<^verbatim>\<open>BatchProcessor.__init__\<close>: the batch size is capped at 10 and the output folder is
  created; a failing \<^verbatim>\<open>mkdir\<close> propagates to the caller.
\<close>

definition BatchProcessor_init ::
  "path \<Rightarrow> path \<Rightarrow> int \<Rightarrow> rat \<Rightarrow> bool \<Rightarrow> bool \<Rightarrow> bool \<Rightarrow> world
     \<Rightarrow> (py_exception + BatchProcessor) \<times> world" where
  "BatchProcessor_init inp outp bsz max_memory_gb preserve skip overwrite w =
     (let self = \<lparr>input_folder = inp, output_folder = outp, batch_size = min bsz 10,
                  preserve_structure = preserve, skip_on_error = skip,
                  overwrite_existing = overwrite,
                  max_memory_bytes = max_memory_gb * 1024 * 1024 * 1024\<rparr>
      in case mkdir_p outp (fs w) of
           Inl (e, t) \<Rightarrow> (Inl e, w\<lparr>fs := t\<rparr>)
         | Inr t \<Rightarrow> (Inr self, w\<lparr>fs := t\<rparr>))"

type_synonym task = "path \<times> path"

fun str_nat :: "nat \<Rightarrow> string" where
  "str_nat n =
     (if n < 10 then [char_of (48 + n)] else str_nat (n div 10) @ [char_of (48 + n mod 10)])"

text \<open>
  The output path of an input path, as \<^verbatim>\<open>discover_documents\<close> computes it:
  \<^verbatim>\<open>output_folder / input_path.relative_to(input_folder).with_suffix('.txt')\<close>.
\<close>

definition output_path_for :: "BatchProcessor \<Rightarrow> path \<Rightarrow> py_exception + path" where
  "output_path_for self inp =
     (case relative_to inp (input_folder self) of
        Inl e \<Rightarrow> Inl e
      | Inr relative_path \<Rightarrow>
          (case with_suffix relative_path ''.txt'' of
             Inl e \<Rightarrow> Inl e
           | Inr rel_txt \<Rightarrow> Inr (output_folder self @ rel_txt)))"

text \<open>
  The body of the inner loop of \<^verbatim>\<open>discover_documents\<close>, for one file name. The condition
  of the skip calls \<^verbatim>\<open>output_path.exists()\<close> first, whatever \<^verbatim>\<open>overwrite_existing\<close> is, and
  outside any \<^verbatim>\<open>try\<close>.
\<close>

definition discover_file ::
  "BatchProcessor \<Rightarrow> path \<Rightarrow> string \<Rightarrow> task list \<Rightarrow> world \<Rightarrow> (py_exception + task list) \<times> world" where
  "discover_file self dirpath filename documents w =
     (let inp = dirpath @ [filename]
      in if \<not> is_supported inp then (Inr documents, w)
         else (case output_path_for self inp of
                 Inl e \<Rightarrow> (Inl e, w)
               | Inr outp \<Rightarrow>
                   (case Path_exists (fs w) outp of
                      Inl e \<Rightarrow> (Inl e, w)
                    | Inr there \<Rightarrow>
                        if there \<and> \<not> overwrite_existing self
                        then (Inr documents,
                              log_to INFO (''Skipping existing file: '' @ path_str outp) w)
                        else (Inr (documents @ [(inp, outp)]), w))))"

fun discover_files ::
  "BatchProcessor \<Rightarrow> path \<Rightarrow> string list \<Rightarrow> task list \<Rightarrow> world \<Rightarrow> (py_exception + task list) \<times> world" where
  "discover_files self dirpath [] documents w = (Inr documents, w)"
| "discover_files self dirpath (filename # files) documents w =
     (case discover_file self dirpath filename documents w of
        (Inl e, w') \<Rightarrow> (Inl e, w')
      | (Inr documents', w') \<Rightarrow> discover_files self dirpath files documents' w')"

fun discover_walk ::
  "BatchProcessor \<Rightarrow> (path \<times> string list \<times> string list) list \<Rightarrow> task list \<Rightarrow> world
     \<Rightarrow> (py_exception + task list) \<times> world" where
  "discover_walk self [] documents w = (Inr documents, w)"
| "discover_walk self ((dirpath, dirs, files) # rest) documents w =
     (case discover_files self dirpath files documents w of
        (Inl e, w') \<Rightarrow> (Inl e, w')
      | (Inr documents', w') \<Rightarrow> discover_walk self rest documents' w')"

text \<open>The triples \<^verbatim>\<open>os.walk(self.input_folder)\<close> yields in a directory tree.\<close>

definition walk_input :: "BatchProcessor \<Rightarrow> node \<Rightarrow> (path \<times> string list \<times> string list) list" where
  "walk_input self t =
     (case lookup t (input_folder self) of
        None \<Rightarrow> []
      | Some n \<Rightarrow> os_walk (path_str (input_folder self)) (input_folder self) n)"

definition discover_documents :: "BatchProcessor \<Rightarrow> world \<Rightarrow> (py_exception + task list) \<times> world" where
  "discover_documents self w =
     (case Path_exists (fs w) (input_folder self) of
        Inl e \<Rightarrow> (Inl e, w)
      | Inr there \<Rightarrow>
          if \<not> there
          then (Inr [], log_to ERROR
                  (''Input folder does not exist: '' @ path_str (input_folder self)) w)
          else (case discover_walk self (walk_input self (fs w)) [] w of
                  (Inl e, w') \<Rightarrow> (Inl e, w')
                | (Inr documents, w') \<Rightarrow>
                    (Inr documents,
                     log_to INFO
                       (''Discovered '' @ str_nat (length documents) @ '' documents to convert'')
                       w')))"

text \<open>
  \<^verbatim>\<open>_convert_single\<close>: first the body of its \<^verbatim>\<open>try\<close>, which raises when the parent of the
  output path cannot be made, then the function with its handler.
\<close>

definition convert_single_try ::
  "libs \<Rightarrow> BatchProcessor \<Rightarrow> path \<Rightarrow> path \<Rightarrow> world \<Rightarrow> (py_exception + ConversionResult) \<times> world" where
  "convert_single_try L self inp outp w =
     (case get_converter inp (preserve_structure self) of
        None \<Rightarrow>
          (let err = ''No converter found for '' @ path_str inp
           in (Inr \<lparr>input_path = inp, output_path = outp, success = False, error = Some err\<rparr>,
               log_to ERROR err w))
      | Some converter \<Rightarrow>
          (case mkdir_p (parent outp) (fs w) of
             Inl (e, t) \<Rightarrow> (Inl e, w\<lparr>fs := t\<rparr>)
           | Inr t \<Rightarrow>
               (case safe_convert L converter inp outp (w\<lparr>fs := t\<rparr>) of
                  ((True, err), w2) \<Rightarrow>
                    (Inr \<lparr>input_path = inp, output_path = outp, success = True, error = None\<rparr>,
                     log_to INFO (''Successfully converted: '' @ path_str inp) w2)
                | ((False, err), w2) \<Rightarrow>
                    (Inr \<lparr>input_path = inp, output_path = outp, success = False, error = err\<rparr>,
                     log_to ERROR
                       (''Failed to convert '' @ path_str inp @ '': ''
                          @ (case err of None \<Rightarrow> ''None'' | Some m \<Rightarrow> m)) w2))))"

definition convert_single ::
  "libs \<Rightarrow> BatchProcessor \<Rightarrow> path \<Rightarrow> path \<Rightarrow> world \<Rightarrow> ConversionResult \<times> world" where
  "convert_single L self inp outp w =
     (case convert_single_try L self inp outp w of
        (Inr r, w') \<Rightarrow> (r, w')
      | (Inl e, w') \<Rightarrow>
          (\<lparr>input_path = inp, output_path = outp, success = False, error = Some (exc_text e)\<rparr>,
           log_to ERROR (''Exception converting '' @ path_str inp @ '': '' @ exc_text e) w'))"

text \<open>
  \<^verbatim>\<open>as_completed\<close>: the futures come back in the order in which they complete, which the
  thread pool decides. The schedule is that decision: at each step its next number picks,
  among the tasks still pending, the one that completes next.
\<close>

definition pick_index :: "nat list \<Rightarrow> nat \<Rightarrow> nat" where
  "pick_index sched n = (case sched of [] \<Rightarrow> 0 | s # ss \<Rightarrow> s mod n)"

function as_completed :: "nat list \<Rightarrow> 'a list \<Rightarrow> 'a list" where
  "as_completed sched [] = []"
| "as_completed sched (x # xs) =
     (x # xs) ! pick_index sched (length (x # xs))
       # as_completed (tl sched)
           (take (pick_index sched (length (x # xs))) (x # xs)
              @ drop (Suc (pick_index sched (length (x # xs)))) (x # xs))"
  by pat_completeness auto
termination
proof (relation "measure (\<lambda>(sched, xs). length xs)")
  show "wf (measure (\<lambda>(sched :: nat list, xs :: 'a list). length xs))" by simp
next
  fix sched :: "nat list" and x :: 'a and xs :: "'a list"
  have "pick_index sched (length (x # xs)) < length (x # xs)"
  proof (cases sched)
    case Nil
    then show ?thesis by (simp add: pick_index_def)
  next
    case (Cons s ss)
    have "s mod length (x # xs) < length (x # xs)"
      by (rule mod_less_divisor) simp
    with Cons show ?thesis by (simp add: pick_index_def)
  qed
  then show "((tl sched, take (pick_index sched (length (x # xs))) (x # xs)
                 @ drop (Suc (pick_index sched (length (x # xs)))) (x # xs)), (sched, x # xs))
               \<in> measure (\<lambda>(sched, xs). length xs)"
    by (simp del: take_Suc_Cons drop_Suc_Cons)
qed

text \<open>
  The pool runs the tasks; each task takes effect on the directory tree as a whole, in the
  order of completion (the interleaving of the steps of different tasks inside the pool is
  not modelled).
\<close>

fun run_tasks :: "libs \<Rightarrow> BatchProcessor \<Rightarrow> task list \<Rightarrow> world \<Rightarrow> ConversionResult list \<times> world" where
  "run_tasks L self [] w = ([], w)"
| "run_tasks L self (d # ds) w =
     (case convert_single L self (fst d) (snd d) w of
        (r, w1) \<Rightarrow> (case run_tasks L self ds w1 of (rs, w2) \<Rightarrow> (r # rs, w2)))"

text \<open>
  \<^verbatim>\<open>process_batch\<close>. \<^verbatim>\<open>ThreadPoolExecutor(max_workers=n)\<close> raises \<^verbatim>\<open>ValueError\<close> when
  \<open>n \<le> 0\<close>, outside any handler.
\<close>

definition process_batch ::
  "libs \<Rightarrow> BatchProcessor \<Rightarrow> nat list \<Rightarrow> task list \<Rightarrow> world
     \<Rightarrow> (py_exception + ConversionResult list) \<times> world" where
  "process_batch L self sched documents w =
     (if documents = [] then (Inr [], w)
      else
        (let w1 = log_to INFO (memory_status L) w
         in if batch_size self \<le> 0
            then (Inl (PyExc ''ValueError'' ''max_workers must be greater than 0''), w1)
            else (case run_tasks L self (as_completed sched documents) w1 of
                    (results, w2) \<Rightarrow> (Inr results, log_to INFO (memory_status L) w2))))"

record results_dict =
  successful :: "ConversionResult list"
  failed :: "ConversionResult list"

definition process_all ::
  "libs \<Rightarrow> BatchProcessor \<Rightarrow> nat list \<Rightarrow> world \<Rightarrow> (py_exception + results_dict) \<times> world" where
  "process_all L self sched w =
     (case discover_documents self w of
        (Inl e, w1) \<Rightarrow> (Inl e, w1)
      | (Inr documents, w1) \<Rightarrow>
          if documents = []
          then (Inr \<lparr>successful = [], failed = []\<rparr>,
                log_to WARNING ''No documents found to convert'' w1)
          else (case process_batch L self sched documents w1 of
                  (Inl e, w2) \<Rightarrow> (Inl e, w2)
                | (Inr all_results, w2) \<Rightarrow>
                    (Inr \<lparr>successful = filter (\<lambda>r. success r) all_results,
                          failed = filter (\<lambda>r. \<not> success r) all_results\<rparr>, w2)))"

text \<open>Python's \<^verbatim>\<open>/\<close> on two lengths raises \<^verbatim>\<open>ZeroDivisionError\<close> on a zero divisor.\<close>

definition py_truediv :: "nat \<Rightarrow> nat \<Rightarrow> py_exception + rat" where
  "py_truediv a b =
     (if b = 0 then Inl (PyExc ''ZeroDivisionError'' ''division by zero'')
      else Inr (of_nat a / of_nat b))"

definition failed_lines :: "ConversionResult list \<Rightarrow> string list" where
  "failed_lines rs =
     concat (map (\<lambda>r. [[CHR '' '', CHR '' '', CHR 0xE2, CHR 0x9C, CHR 0x97, CHR '' ''] @ path_str (input_path r)]
                      @ (case error r of
                           None \<Rightarrow> []
                         | Some m \<Rightarrow> if m = [] then [] else [''    Error: '' @ m])) rs)"

fun join_lines :: "string list \<Rightarrow> string" where
  "join_lines [] = []"
| "join_lines [l] = l"
| "join_lines (l # m # ls) = l @ [CHR 0x0A] @ join_lines (m # ls)"

text \<open>
  \<^verbatim>\<open>generate_report\<close>. The conditional expression of the rate line chooses between the whole
  formatted line and the bare text \<^verbatim>\<open>N/A\<close>, and divides only when the total is positive.
\<close>

definition generate_report :: "libs \<Rightarrow> results_dict \<Rightarrow> py_exception + string" where
  "generate_report L results =
     (let total = length (successful results) + length (failed results);
          rule60 = replicate 60 CHR ''='';
          rate_line =
            (if total > 0
             then (case py_truediv (length (successful results)) total of
                     Inl e \<Rightarrow> Inl e
                   | Inr q \<Rightarrow> Inr (''Success rate: '' @ format_1f L (q * 100) @ ''%''))
             else Inr ''N/A'')
      in case rate_line of
           Inl e \<Rightarrow> Inl e
         | Inr rate \<Rightarrow>
             Inr (join_lines
               ([[CHR 0x0A] @ rule60, ''CONVERSION REPORT'', rule60,
                 ''Total documents: '' @ str_nat total,
                 ''Successful: '' @ str_nat (length (successful results)),
                 ''Failed: '' @ str_nat (length (failed results)),
                 rate, rule60]
                @ (if failed results \<noteq> []
                   then [[CHR 0x0A] @ ''Failed conversions:''] @ failed_lines (failed results)
                   else [])
                @ (if successful results \<noteq> []
                   then [[CHR 0x0A] @ ''Successfully converted ''
                           @ str_nat (length (successful results)) @ '' documents'']
                   else [])
                @ [rule60 @ [CHR 0x0A]])))"

section \<open>config/settings.py\<close>

record config_data =
  cfg_input_folder :: string
  cfg_output_folder :: string
  cfg_batch_size :: int
  cfg_max_memory_gb :: rat
  cfg_log_file :: string

text \<open>
  \<^verbatim>\<open>os.makedirs\<close> on a path string of the configuration: the empty string is no path, and
  \<^verbatim>\<open>os.mkdir\<close> raises \<^verbatim>\<open>FileNotFoundError\<close> on it.
\<close>

definition makedirs_str :: "string \<Rightarrow> node \<Rightarrow> (py_exception \<times> node) + node" where
  "makedirs_str s t =
     (if s = []
      then Inl (PyExc ''FileNotFoundError''
                  (''[Errno 2] No such file or directory: '' @ [CHR 0x27, CHR 0x27]), t)
      else os_makedirs (components s) t)"

text \<open>
  \<^verbatim>\<open>Config._validate_config\<close>, on the values the properties of the configuration return:
  a batch size outside 1..50 and a memory limit below 1 are rejected with \<^verbatim>\<open>ValueError\<close>;
  then the three directories are made, the last one being the \<^verbatim>\<open>os.path.dirname\<close> of the
  log file.
\<close>

definition validate_config :: "config_data \<Rightarrow> world \<Rightarrow> (py_exception + unit) \<times> world" where
  "validate_config c w =
     (if cfg_batch_size c < 1 \<or> cfg_batch_size c > 50
      then (Inl (PyExc ''ValueError'' ''batch_size must be between 1 and 50''), w)
      else if cfg_max_memory_gb c < 1
      then (Inl (PyExc ''ValueError'' ''max_memory_gb must be at least 1''), w)
      else (case makedirs_str (cfg_input_folder c) (fs w) of
              Inl (e, t1) \<Rightarrow> (Inl e, w\<lparr>fs := t1\<rparr>)
            | Inr t1 \<Rightarrow>
                (case makedirs_str (cfg_output_folder c) t1 of
                   Inl (e, t2) \<Rightarrow> (Inl e, w\<lparr>fs := t2\<rparr>)
                 | Inr t2 \<Rightarrow>
                     (case makedirs_str (os_path_dirname (cfg_log_file c)) t2 of
                        Inl (e, t3) \<Rightarrow> (Inl e, w\<lparr>fs := t3\<rparr>)
                      | Inr t3 \<Rightarrow> (Inr (), w\<lparr>fs := t3\<rparr>)))))"

section \<open>Notions used to state the properties\<close>

text \<open>
  The input paths the two loops of \<^verbatim>\<open>discover_documents\<close> go through:
  \<^verbatim>\<open>Path(root) / filename\<close> for every triple of the walk and every file name in it.
\<close>

definition files_of ::
  "(path \<times> string list \<times> string list) list \<Rightarrow> path list" where
  "files_of triples =
     concat (map (\<lambda>(dirpath, dirs, files). map (\<lambda>filename. dirpath @ [filename]) files) triples)"

definition input_files :: "BatchProcessor \<Rightarrow> node \<Rightarrow> path list" where
  "input_files self t = files_of (walk_input self t)"

text \<open>
  The string a walk from \<open>s\<close> has joined for the directory the names \<open>rel\<close> lead to, and
  the string by which the walk of the input folder lists the directory at a path.
\<close>

definition joined :: "string \<Rightarrow> path \<Rightarrow> string" where
  "joined s rel = s @ concat (map (\<lambda>x. ''/'' @ x) rel)"

definition walk_string :: "BatchProcessor \<Rightarrow> path \<Rightarrow> string" where
  "walk_string self d =
     joined (path_str (input_folder self)) (drop (length (input_folder self)) d)"

text \<open>
  What the existence check of the output path gives for an input path, whether it returns,
  and what the body of the loop appends for the input path when it does.
\<close>

definition output_check :: "BatchProcessor \<Rightarrow> node \<Rightarrow> path \<Rightarrow> py_exception + bool" where
  "output_check self t inp =
     (case output_path_for self inp of Inl e \<Rightarrow> Inl e | Inr outp \<Rightarrow> Path_exists t outp)"

definition check_returns :: "BatchProcessor \<Rightarrow> node \<Rightarrow> path \<Rightarrow> bool" where
  "check_returns self t inp =
     (if is_supported inp
      then (case output_check self t inp of Inl e \<Rightarrow> False | Inr there \<Rightarrow> True)
      else True)"

definition emitted :: "BatchProcessor \<Rightarrow> node \<Rightarrow> path \<Rightarrow> task list" where
  "emitted self t inp =
     (if is_supported inp
      then (case output_path_for self inp of
              Inl e \<Rightarrow> []
            | Inr outp \<Rightarrow> if exists t outp \<and> \<not> overwrite_existing self then [] else [(inp, outp)])
      else [])"

text \<open>
  The files of a directory tree, by a walk that lists every directory, and how a tree \<open>t'\<close>
  grows out of \<open>t\<close> by the paths \<open>P\<close>: what exists stays, and the files below any
  directory are those that were there before or are among \<open>P\<close>.
\<close>

fun tree_walk :: "path \<Rightarrow> node \<Rightarrow> (path \<times> string list \<times> string list) list" where
  "tree_walk tp (File c) = []"
| "tree_walk tp (Dir es) =
     (tp, map fst (filter (\<lambda>e. is_Dir (snd e)) es), map fst (filter (\<lambda>e. is_File (snd e)) es))
       # concat (map (\<lambda>e. tree_walk (tp @ [fst e]) (snd e)) es)"

definition tree_files :: "path \<Rightarrow> node \<Rightarrow> path list" where
  "tree_files tp n = files_of (tree_walk tp n)"

definition files_at :: "path \<Rightarrow> node \<Rightarrow> path set" where
  "files_at r t = (case lookup t r of None \<Rightarrow> {} | Some n \<Rightarrow> set (tree_files r n))"

definition grows :: "path set \<Rightarrow> node \<Rightarrow> node \<Rightarrow> bool" where
  "grows P t t' =
     ((\<forall>q. exists t q \<longrightarrow> exists t' q) \<and> (\<forall>r. files_at r t' \<subseteq> files_at r t \<union> P))"

text \<open>
  The tree a call leaves, whether it failed or not, and the paths the operating system
  takes: no name of more than \<open>NAME_MAX\<close> bytes, fewer than \<open>PATH_MAX\<close> bytes in all.
\<close>

definition tree_of :: "(py_exception \<times> node) + node \<Rightarrow> node" where
  "tree_of r = (case r of Inl (e, t) \<Rightarrow> t | Inr t \<Rightarrow> t)"

definition within_limits :: "path \<Rightarrow> bool" where
  "within_limits p = (list_all (\<lambda>x. length x \<le> NAME_MAX) p \<and> length (path_str p) < PATH_MAX)"

section \<open>A concrete run\<close>

text \<open>
  The scenario used to exercise the theorems: an input folder with an extractable PDF, a
  file of an unsupported format and a DOCX whose parser raises; the MOBI library raises on
  every input, so that MOBI files go through the fallback.
\<close>

definition ex_libs :: libs where
  "ex_libs =
     \<lparr>extract_lib =
        (\<lambda>c p s. if c = DOCXConverter then Inl (PyExc ''ExtractionError'' ''bad'') else Inr s),
      mobi_extract = (\<lambda>s. Inl (PyExc ''MobiError'' ''corrupt'')),
      soup_text = (\<lambda>p s. Inr s),
      utf8_decode_ignore = (\<lambda>s. s),
      utf8_encode = (\<lambda>s. Inr s),
      memory_status = ''Memory Status'',
      format_1f = (\<lambda>q. ''33.3'')\<rparr>"

definition ex_processor :: BatchProcessor where
  "ex_processor =
     \<lparr>input_folder = [''in''], output_folder = [''out''], batch_size = 10,
      preserve_structure = True, skip_on_error = True, overwrite_existing = False,
      max_memory_bytes = 10 * 1024 * 1024 * 1024\<rparr>"

definition ex_tree :: node where
  "ex_tree =
     Dir [(''in'', Dir [(''a.pdf'', File ''Hello''), (''b.xyz'', File ''x''),
                        (''c.docx'', File ''y''), (''d.mobi'', File ''raw'')])]"

definition ex_world :: world where
  "ex_world = \<lparr>fs = ex_tree, logged = []\<rparr>"

definition ex_documents :: "task list" where
  "ex_documents =
     [([''in'', ''a.pdf''], [''out'', ''a.txt'']), ([''in'', ''b.xyz''], [''out'', ''b.txt'']),
      ([''in'', ''c.docx''], [''out'', ''c.txt''])]"


definition ex_good_world :: world where
  "ex_good_world = \<lparr>fs = Dir [(''in'', Dir [(''a.pdf'', File ''Hello'')])], logged = []\<rparr>"



section \<open>Results of a single task\<close>

lemma fs_log_to [simp]: "fs (log_to lvl msg w) = fs w"
  by (simp add: log_to_def)

lemma Path_is_file_exists: "Path_is_file t p = Inr True \<Longrightarrow> Path_exists t p = Inr True"
  by (auto simp: Path_is_file_def Path_exists_def Path_test_def split: sum.splits if_splits)

lemma validate_input_file:
  "Path_is_file (fs w) inp = Inr True \<Longrightarrow> validate_input inp w = (Inr True, w)"
  by (simp add: validate_input_def Path_is_file_exists)

lemma exc_text_nonempty: "exc_text e \<noteq> []"
  by (simp add: exc_text_def)

lemma safe_convert_with_cases:
  "safe_convert_with cm inp outp w = ((b, err), w') \<Longrightarrow>
     (b \<and> err = None) \<or> (\<not> b \<and> (\<exists>m. err = Some m \<and> m \<noteq> []))"
  by (auto simp: safe_convert_with_def exc_text_nonempty
        split: prod.splits bool.splits sum.splits if_splits)

lemma convert_single_try_invariant:
  "convert_single_try L self inp outp w = (Inr r, w') \<Longrightarrow>
     input_path r = inp \<and> output_path r = outp \<and>
     (if success r then error r = None else (\<exists>m. error r = Some m \<and> m \<noteq> []))"
  unfolding convert_single_try_def safe_convert_def
  by (auto simp: Let_def split: option.splits sum.splits prod.splits bool.splits
        dest!: safe_convert_with_cases)

lemma convert_single_invariant:
  "convert_single L self inp outp w = (r, w') \<Longrightarrow>
     input_path r = inp \<and> output_path r = outp \<and>
     (if success r then error r = None else (\<exists>m. error r = Some m \<and> m \<noteq> []))"
  unfolding convert_single_def
  by (auto simp: exc_text_nonempty split: prod.splits sum.splits
        dest!: convert_single_try_invariant)

lemma run_tasks_paths:
  "run_tasks L self ds w = (rs, w') \<Longrightarrow> map (\<lambda>r. (input_path r, output_path r)) rs = ds"
proof (induction ds arbitrary: w rs w')
  case Nil
  then show ?case by simp
next
  case (Cons d ds)
  obtain r w1 where c: "convert_single L self (fst d) (snd d) w = (r, w1)"
    by (cases "convert_single L self (fst d) (snd d) w")
  obtain rs' w2 where t: "run_tasks L self ds w1 = (rs', w2)"
    by (cases "run_tasks L self ds w1")
  from Cons.prems c t have rs: "rs = r # rs'" by simp
  from convert_single_invariant[OF c] have "(input_path r, output_path r) = d"
    by (cases d) simp
  with Cons.IH[OF t] rs show ?case by simp
qed

lemma run_tasks_invariant:
  "run_tasks L self ds w = (rs, w') \<Longrightarrow> r \<in> set rs \<Longrightarrow>
     (if success r then error r = None else (\<exists>m. error r = Some m \<and> m \<noteq> []))"
proof (induction ds arbitrary: w rs w')
  case Nil
  then show ?case by simp
next
  case (Cons d ds)
  obtain r0 w1 where c: "convert_single L self (fst d) (snd d) w = (r0, w1)"
    by (cases "convert_single L self (fst d) (snd d) w")
  obtain rs' w2 where t: "run_tasks L self ds w1 = (rs', w2)"
    by (cases "run_tasks L self ds w1")
  from Cons.prems c t have rs: "rs = r0 # rs'" by simp
  show ?case
  proof (cases "r = r0")
    case True
    with convert_single_invariant[OF c] show ?thesis by simp
  next
    case False
    with Cons.prems(2) rs have "r \<in> set rs'" by simp
    from Cons.IH[OF t this] show ?thesis .
  qed
qed

lemma pick_index_less: "0 < n \<Longrightarrow> pick_index sched n < n"
  by (cases sched) (simp_all add: pick_index_def)

lemma mset_as_completed: "mset (as_completed sched xs) = mset xs"
proof (induction sched xs rule: as_completed.induct)
  case (1 sched)
  then show ?case by simp
next
  case (2 sched x xs)
  let ?i = "pick_index sched (length (x # xs))"
  have lt: "?i < length (x # xs)"
    by (rule pick_index_less) simp
  have "mset (x # xs) = mset (take ?i (x # xs) @ (x # xs) ! ?i # drop (Suc ?i) (x # xs))"
    using lt id_take_nth_drop by metis
  then show ?case using 2 by (simp del: take_Suc_Cons drop_Suc_Cons nth_Cons_Suc mset.simps)
      (simp add: 2)
qed

lemma process_batch_returns:
  assumes "0 < batch_size self"
  shows "\<exists>rs w'. process_batch L self sched documents w = (Inr rs, w')
           \<and> map (\<lambda>r. (input_path r, output_path r)) rs = as_completed sched documents
           \<and> (\<forall>r \<in> set rs. if success r then error r = None
                              else (\<exists>m. error r = Some m \<and> m \<noteq> []))"
proof (cases "documents = []")
  case True
  then show ?thesis by (simp add: process_batch_def)
next
  case False
  let ?w1 = "log_to INFO (memory_status L) w"
  obtain rs w2 where t: "run_tasks L self (as_completed sched documents) ?w1 = (rs, w2)"
    by (cases "run_tasks L self (as_completed sched documents) ?w1")
  from False assms t
  have "process_batch L self sched documents w = (Inr rs, log_to INFO (memory_status L) w2)"
    by (simp add: process_batch_def Let_def)
  moreover note run_tasks_paths[OF t]
  moreover have "\<forall>r \<in> set rs. if success r then error r = None
                              else (\<exists>m. error r = Some m \<and> m \<noteq> [])"
    using run_tasks_invariant[OF t] by blast
  ultimately show ?thesis by blast
qed

section \<open>Result-count conservation\<close>

text \<open>
  Claim C1. For every list of N tasks and every behaviour of the converters, including
  converters that raise, \<^const>\<open>process_batch\<close> returns (it does not raise) exactly N
  results, one for each submitted task: the pairs of paths of the results are the submitted
  tasks, each as often as it was submitted. The pool size is the positive number a
  validated configuration gives.
\<close>

theorem result_count_conservation:
  assumes "0 < batch_size self"
  shows "\<exists>rs w'. process_batch L self sched documents w = (Inr rs, w')
           \<and> length rs = length documents
           \<and> mset (map (\<lambda>r. (input_path r, output_path r)) rs) = mset documents"
proof -
  from process_batch_returns[OF assms, of L sched documents w]
  obtain rs w' where r: "process_batch L self sched documents w = (Inr rs, w')"
    and p: "map (\<lambda>r. (input_path r, output_path r)) rs = as_completed sched documents"
    by blast
  from p have m: "mset (map (\<lambda>r. (input_path r, output_path r)) rs) = mset documents"
    by (simp add: mset_as_completed)
  then have "size (mset (map (\<lambda>r. (input_path r, output_path r)) rs)) = size (mset documents)"
    by simp
  then have "length rs = length documents" by simp
  with r m show ?thesis by blast
qed

theorem result_count_conservation_witness:
  "0 < batch_size ex_processor
   \<and> (\<exists>rs w'. process_batch ex_libs ex_processor [2, 0] ex_documents ex_world = (Inr rs, w')
         \<and> length rs = 3
         \<and> mset (map (\<lambda>r. (input_path r, output_path r)) rs) = mset ex_documents)"
proof -
  have h: "0 < batch_size ex_processor" by (simp add: ex_processor_def)
  have l: "length ex_documents = 3" by (simp add: ex_documents_def)
  from result_count_conservation[OF h, of ex_libs "[2, 0]" ex_documents ex_world] h l
  show ?thesis by simp
qed


section \<open>The invariant of conversion results\<close>

text \<open>
  Claim C10. Every result \<^const>\<open>convert_single\<close> produces has no error when it is a
  success, and a non-empty error text when it is a failure; so every entry of the
  \<open>successful\<close> list that \<^const>\<open>process_all\<close> returns carries no error, and every entry
  of its \<open>failed\<close> list carries a non-empty one.
\<close>

theorem conversion_result_invariant:
  "(success (fst (convert_single L self inp outp w))
      \<longrightarrow> error (fst (convert_single L self inp outp w)) = None)
   \<and> (\<not> success (fst (convert_single L self inp outp w))
      \<longrightarrow> (\<exists>m. error (fst (convert_single L self inp outp w)) = Some m \<and> m \<noteq> []))
   \<and> (\<forall>res w'. process_all L self sched w = (Inr res, w') \<longrightarrow>
        (\<forall>r \<in> set (successful res). success r \<and> error r = None)
        \<and> (\<forall>r \<in> set (failed res). \<not> success r \<and> (\<exists>m. error r = Some m \<and> m \<noteq> [])))"
proof -
  obtain r w1 where c: "convert_single L self inp outp w = (r, w1)"
    by (cases "convert_single L self inp outp w")
  from convert_single_invariant[OF c] c
  have single: "(success (fst (convert_single L self inp outp w))
      \<longrightarrow> error (fst (convert_single L self inp outp w)) = None)
   \<and> (\<not> success (fst (convert_single L self inp outp w))
      \<longrightarrow> (\<exists>m. error (fst (convert_single L self inp outp w)) = Some m \<and> m \<noteq> []))"
    by (cases "success r") simp_all
  have batch: "(\<forall>r \<in> set (successful res). success r \<and> error r = None)
        \<and> (\<forall>r \<in> set (failed res). \<not> success r \<and> (\<exists>m. error r = Some m \<and> m \<noteq> []))"
    if p: "process_all L self sched w = (Inr res, w')" for res w'
  proof -
    obtain ds wd where d: "discover_documents self w = (ds, wd)"
      by (cases "discover_documents self w")
    show ?thesis
    proof (cases ds)
      case (Inl e)
      with p d show ?thesis by (simp add: process_all_def)
    next
      case (Inr documents)
      show ?thesis
      proof (cases "documents = []")
        case True
        with p d Inr have "res = \<lparr>successful = [], failed = []\<rparr>"
          by (simp add: process_all_def)
        then show ?thesis by simp
      next
        case False
        obtain b wb where b: "process_batch L self sched documents wd = (b, wb)"
          by (cases "process_batch L self sched documents wd")
        from p d Inr False b obtain rs where rs: "b = Inr rs"
          and res: "res = \<lparr>successful = filter (\<lambda>r. success r) rs,
                          failed = filter (\<lambda>r. \<not> success r) rs\<rparr>"
          by (cases b) (auto simp: process_all_def)
        from False b rs have pos: "0 < batch_size self"
          by (auto simp: process_batch_def Let_def split: if_splits)
        from process_batch_returns[OF pos, of L sched documents wd] b rs
        have inv: "\<forall>r \<in> set rs. if success r then error r = None
                              else (\<exists>m. error r = Some m \<and> m \<noteq> [])"
          by simp
        have "success r \<and> error r = None" if "r \<in> set (successful res)" for r
        proof -
          from that res have "r \<in> set rs" "success r" by simp_all
          with inv show ?thesis by auto
        qed
        moreover have "\<not> success r \<and> (\<exists>m. error r = Some m \<and> m \<noteq> [])"
          if "r \<in> set (failed res)" for r
        proof -
          from that res have "r \<in> set rs" "\<not> success r" by simp_all
          with inv show ?thesis by auto
        qed
        ultimately show ?thesis by blast
      qed
    qed
  qed
  from single batch show ?thesis by blast
qed

theorem conversion_result_invariant_witness:
  "success (fst (convert_single ex_libs ex_processor [''in'', ''a.pdf''] [''out'', ''a.txt''] ex_world))
   \<and> error (fst (convert_single ex_libs ex_processor [''in'', ''a.pdf''] [''out'', ''a.txt''] ex_world)) = None
   \<and> \<not> success (fst (convert_single ex_libs ex_processor [''in'', ''c.docx''] [''out'', ''c.txt''] ex_world))
   \<and> (\<exists>m. error (fst (convert_single ex_libs ex_processor [''in'', ''c.docx''] [''out'', ''c.txt''] ex_world)) = Some m
          \<and> m \<noteq> [])
   \<and> (\<exists>res w'. process_all ex_libs ex_processor [] ex_world = (Inr res, w')
          \<and> length (successful res) = 2 \<and> length (failed res) = 1
          \<and> list_all (\<lambda>r. success r \<and> error r = None) (successful res)
          \<and> list_all (\<lambda>r. \<not> success r \<and> (\<exists>m. error r = Some m \<and> m \<noteq> [])) (failed res))"
proof -
  have s: "success (fst (convert_single ex_libs ex_processor [''in'', ''a.pdf''] [''out'', ''a.txt''] ex_world))"
    by code_simp
  have f: "\<not> success (fst (convert_single ex_libs ex_processor [''in'', ''c.docx''] [''out'', ''c.txt''] ex_world))"
    by code_simp
  have p: "fst (process_all ex_libs ex_processor [] ex_world) =
     Inr \<lparr>successful =
            [\<lparr>input_path = [''in'', ''a.pdf''], output_path = [''out'', ''a.txt''],
               success = True, error = None\<rparr>,
             \<lparr>input_path = [''in'', ''d.mobi''], output_path = [''out'', ''d.txt''],
               success = True, error = None\<rparr>],
          failed =
            [\<lparr>input_path = [''in'', ''c.docx''], output_path = [''out'', ''c.txt''],
               success = False, error = Some ''Conversion failed''\<rparr>]\<rparr>"
    by code_simp
  obtain res w' where r: "process_all ex_libs ex_processor [] ex_world = (Inr res, w')"
    and l: "length (successful res) = 2" "length (failed res) = 1"
    using p by (cases "process_all ex_libs ex_processor [] ex_world") auto
  note t1 = conversion_result_invariant
    [of ex_libs ex_processor "[''in'', ''a.pdf'']" "[''out'', ''a.txt'']" ex_world "[]"]
  note t2 = conversion_result_invariant
    [of ex_libs ex_processor "[''in'', ''c.docx'']" "[''out'', ''c.txt'']" ex_world "[]"]
  from t1 s have a: "error (fst (convert_single ex_libs ex_processor [''in'', ''a.pdf''] [''out'', ''a.txt''] ex_world)) = None"
    by blast
  from t2 f have b: "\<exists>m. error (fst (convert_single ex_libs ex_processor [''in'', ''c.docx''] [''out'', ''c.txt''] ex_world)) = Some m \<and> m \<noteq> []"
    by blast
  from t1 r have c: "list_all (\<lambda>r. success r \<and> error r = None) (successful res)"
    "list_all (\<lambda>r. \<not> success r \<and> (\<exists>m. error r = Some m \<and> m \<noteq> [])) (failed res)"
    unfolding list_all_iff by blast+
  from s f a b r l c show ?thesis by blast
qed


section \<open>Failure isolation\<close>

lemma convert_returns: "\<exists>b. fst (convert L conv inp outp w) = Inr b"
  by (auto simp: convert_def split: prod.splits sum.splits)

lemma convert_extraction_raises:
  "fst (extract_text L conv inp w) = Inl e \<Longrightarrow> fst (convert L conv inp outp w) = Inr False"
  by (auto simp: convert_def split: prod.splits sum.splits)

lemma convert_write_fails:
  "extract_text L conv inp w = (Inr text, w1) \<Longrightarrow> fst (write_output L text outp w1) = False
     \<Longrightarrow> fst (convert L conv inp outp w) = Inr False"
  by (auto simp: convert_def split: prod.splits sum.splits)

lemma convert_single_convert_fails:
  assumes "get_converter inp (preserve_structure self) = Some conv"
    and "mkdir_p (parent outp) (fs w) = Inr t"
    and "Path_is_file t inp = Inr True"
    and "fst (convert L conv inp outp (w\<lparr>fs := t\<rparr>)) = Inr False"
  shows "fst (convert_single L self inp outp w)
           = \<lparr>input_path = inp, output_path = outp, success = False,
               error = Some ''Conversion failed''\<rparr>"
proof -
  from assms(3) have v: "validate_input inp (w\<lparr>fs := t\<rparr>) = (Inr True, w\<lparr>fs := t\<rparr>)"
    by (simp add: validate_input_file)
  obtain w2 where c: "convert L conv inp outp (w\<lparr>fs := t\<rparr>) = (Inr False, w2)"
    using assms(4) by (cases "convert L conv inp outp (w\<lparr>fs := t\<rparr>)") simp
  from v c have "safe_convert L conv inp outp (w\<lparr>fs := t\<rparr>)
                   = ((False, Some ''Conversion failed''), w2)"
    by (simp add: safe_convert_def safe_convert_with_def)
  with assms(1,2) show ?thesis
    by (simp add: convert_single_def convert_single_try_def)
qed

text \<open>
  Claim C2. Whatever is raised while a task is extracted or written is turned into a
  failed result with an error text at the task's boundary: \<^const>\<open>safe_convert_with\<close> catches
  what the \<^verbatim>\<open>convert\<close> method of any converter raises, and what the validation of the input
  raises; \<^const>\<open>convert_single\<close> catches what the body of its \<^verbatim>\<open>try\<close> raises; an extraction
  that raises and an output that cannot be written end in a failed result; and the pool
  returns, with a result for every task of the batch, whatever the other tasks did.
\<close>

theorem failure_isolation:
  "(\<forall>e w1 w2. validate_input inp w = (Inr True, w1) \<longrightarrow> cm inp outp w1 = (Inl e, w2) \<longrightarrow>
       fst (safe_convert_with cm inp outp w) = (False, Some (exc_text e)))
   \<and> (\<forall>e w1. validate_input inp w = (Inl e, w1) \<longrightarrow>
         fst (safe_convert_with cm inp outp w) = (False, Some (exc_text e)))
   \<and> (\<forall>e w'. convert_single_try L self inp outp w = (Inl e, w') \<longrightarrow>
         fst (convert_single L self inp outp w)
           = \<lparr>input_path = inp, output_path = outp, success = False,
               error = Some (exc_text e)\<rparr>)
   \<and> (\<forall>conv t e. get_converter inp (preserve_structure self) = Some conv \<longrightarrow>
         mkdir_p (parent outp) (fs w) = Inr t \<longrightarrow> Path_is_file t inp = Inr True \<longrightarrow>
         fst (extract_text L conv inp (w\<lparr>fs := t\<rparr>)) = Inl e \<longrightarrow>
         fst (convert_single L self inp outp w)
           = \<lparr>input_path = inp, output_path = outp, success = False,
               error = Some ''Conversion failed''\<rparr>)
   \<and> (\<forall>conv t text w1. get_converter inp (preserve_structure self) = Some conv \<longrightarrow>
         mkdir_p (parent outp) (fs w) = Inr t \<longrightarrow> Path_is_file t inp = Inr True \<longrightarrow>
         extract_text L conv inp (w\<lparr>fs := t\<rparr>) = (Inr text, w1) \<longrightarrow>
         fst (write_output L text outp w1) = False \<longrightarrow>
         fst (convert_single L self inp outp w)
           = \<lparr>input_path = inp, output_path = outp, success = False,
               error = Some ''Conversion failed''\<rparr>)
   \<and> (0 < batch_size self \<longrightarrow>
         (\<exists>rs w'. process_batch L self sched documents w = (Inr rs, w')
            \<and> (\<forall>d \<in> set documents. \<exists>r \<in> set rs. input_path r = fst d \<and> output_path r = snd d)))"
proof -
  have c1: "fst (safe_convert_with cm inp outp w) = (False, Some (exc_text e))"
    if "validate_input inp w = (Inr True, w1)" "cm inp outp w1 = (Inl e, w2)" for e w1 w2
    using that by (simp add: safe_convert_with_def)
  have c1': "fst (safe_convert_with cm inp outp w) = (False, Some (exc_text e))"
    if "validate_input inp w = (Inl e, w1)" for e w1
    using that by (simp add: safe_convert_with_def)
  have c2: "fst (convert_single L self inp outp w)
           = \<lparr>input_path = inp, output_path = outp, success = False,
               error = Some (exc_text e)\<rparr>"
    if "convert_single_try L self inp outp w = (Inl e, w')" for e w'
    using that by (simp add: convert_single_def)
  have c3: "fst (convert_single L self inp outp w)
           = \<lparr>input_path = inp, output_path = outp, success = False,
               error = Some ''Conversion failed''\<rparr>"
    if a: "get_converter inp (preserve_structure self) = Some conv"
      "mkdir_p (parent outp) (fs w) = Inr t" "Path_is_file t inp = Inr True"
      and x: "fst (extract_text L conv inp (w\<lparr>fs := t\<rparr>)) = Inl e" for conv t e
  proof -
    from convert_extraction_raises[OF x]
    have "fst (convert L conv inp outp (w\<lparr>fs := t\<rparr>)) = Inr False" .
    from convert_single_convert_fails[OF a this] show ?thesis .
  qed
  have c4: "fst (convert_single L self inp outp w)
           = \<lparr>input_path = inp, output_path = outp, success = False,
               error = Some ''Conversion failed''\<rparr>"
    if a: "get_converter inp (preserve_structure self) = Some conv"
      "mkdir_p (parent outp) (fs w) = Inr t" "Path_is_file t inp = Inr True"
      and x: "extract_text L conv inp (w\<lparr>fs := t\<rparr>) = (Inr content, w1)"
        "fst (write_output L content outp w1) = False" for conv t content w1
  proof -
    from convert_write_fails[OF x]
    have "fst (convert L conv inp outp (w\<lparr>fs := t\<rparr>)) = Inr False" .
    from convert_single_convert_fails[OF a this] show ?thesis .
  qed
  have c5: "\<exists>rs w'. process_batch L self sched documents w = (Inr rs, w')
            \<and> (\<forall>d \<in> set documents. \<exists>r \<in> set rs. input_path r = fst d \<and> output_path r = snd d)"
    if pos: "0 < batch_size self"
  proof -
    from process_batch_returns[OF pos, of L sched documents w]
    obtain rs w' where r: "process_batch L self sched documents w = (Inr rs, w')"
      and p: "map (\<lambda>r. (input_path r, output_path r)) rs = as_completed sched documents"
      by blast
    have "\<exists>r \<in> set rs. input_path r = fst d \<and> output_path r = snd d"
      if "d \<in> set documents" for d
    proof -
      from that have "d \<in># mset (as_completed sched documents)"
        by (simp add: mset_as_completed)
      then have "d \<in> (\<lambda>r. (input_path r, output_path r)) ` set rs"
        by (simp add: p [symmetric])
      then obtain r where "r \<in> set rs" "d = (input_path r, output_path r)"
        by blast
      then show ?thesis by (intro bexI[of _ r]) simp_all
    qed
    with r show ?thesis by blast
  qed
  from c1 c1' c2 c3 c4 c5 show ?thesis by blast
qed

text \<open>
  The witness: a \<^verbatim>\<open>convert\<close> method that raises; an input path with a name of 256 bytes, on
  which the validation raises; an output path below a regular file, so that making its
  parent raises inside \<^const>\<open>convert_single_try\<close>; the DOCX of the concrete run, whose parser
  raises; a PDF whose output path is a directory; and the batch of the concrete run.
\<close>

theorem failure_isolation_witness:
  "validate_input [''in'', ''a.pdf''] ex_world = (Inr True, ex_world)
   \<and> fst (safe_convert_with (\<lambda>i o' w. (Inl (PyExc ''RuntimeError'' ''boom''), w))
            [''in'', ''a.pdf''] [''out'', ''a.txt''] ex_world)
       = (False, Some ''RuntimeError: boom'')
   \<and> validate_input [''in'', replicate 256 CHR ''a''] ex_world
       = (Inl (os_error ENAMETOOLONG [''in'', replicate 256 CHR ''a'']), ex_world)
   \<and> fst (safe_convert_with (convert ex_libs (PDFConverter, True))
            [''in'', replicate 256 CHR ''a''] [''out'', ''a.txt''] ex_world)
       = (False, Some (exc_text (os_error ENAMETOOLONG [''in'', replicate 256 CHR ''a''])))
   \<and> fst (convert_single_try ex_libs ex_processor [''in'', ''a.pdf'']
            [''in'', ''b.xyz'', ''a.txt''] ex_world)
       = Inl (PyExc ''FileExistsError''
                (''[Errno 17] File exists: '' @ [CHR 0x27] @ ''in/b.xyz'' @ [CHR 0x27]))
   \<and> fst (convert_single ex_libs ex_processor [''in'', ''a.pdf''] [''in'', ''b.xyz'', ''a.txt''] ex_world)
       = \<lparr>input_path = [''in'', ''a.pdf''], output_path = [''in'', ''b.xyz'', ''a.txt''],
           success = False,
           error = Some (''FileExistsError: [Errno 17] File exists: ''
                           @ [CHR 0x27] @ ''in/b.xyz'' @ [CHR 0x27])\<rparr>
   \<and> fst (extract_text ex_libs (DOCXConverter, True) [''in'', ''c.docx''] (ex_world\<lparr>fs := ex_tree\<rparr>))
       = Inl (PyExc ''ExtractionError'' ''bad'')
   \<and> fst (convert_single ex_libs ex_processor [''in'', ''c.docx''] [''in'', ''c.txt''] ex_world)
       = \<lparr>input_path = [''in'', ''c.docx''], output_path = [''in'', ''c.txt''],
           success = False, error = Some ''Conversion failed''\<rparr>
   \<and> fst (write_output ex_libs ''Hello'' [''in''] ex_world) = False
   \<and> fst (convert_single ex_libs ex_processor [''in'', ''a.pdf''] [''in''] ex_world)
       = \<lparr>input_path = [''in'', ''a.pdf''], output_path = [''in''],
           success = False, error = Some ''Conversion failed''\<rparr>
   \<and> 0 < batch_size ex_processor
   \<and> (\<exists>rs w'. process_batch ex_libs ex_processor [2, 0] ex_documents ex_world = (Inr rs, w')
         \<and> list_all (\<lambda>d. \<exists>r \<in> set rs. input_path r = fst d \<and> output_path r = snd d) ex_documents)"
proof -
  note T = failure_isolation
  let ?long = "[''in'', replicate 256 CHR ''a'']"
  have v: "validate_input [''in'', ''a.pdf''] ex_world = (Inr True, ex_world)"
    by (rule validate_input_file) code_simp
  let ?cm = "\<lambda>(i :: path) (o' :: path) (w :: world). (Inl (PyExc ''RuntimeError'' ''boom'') :: py_exception + bool, w)"
  have c1: "fst (safe_convert_with ?cm [''in'', ''a.pdf''] [''out'', ''a.txt''] ex_world)
       = (False, Some ''RuntimeError: boom'')"
    using T[of "[''in'', ''a.pdf'']" ex_world ?cm "[''out'', ''a.txt'']"] v
    by (simp add: exc_text_def)
  have pe: "Path_exists (fs ex_world) ?long = Inl (os_error ENAMETOOLONG ?long)"
    by code_simp
  then have v': "validate_input ?long ex_world = (Inl (os_error ENAMETOOLONG ?long), ex_world)"
    by (simp add: validate_input_def)
  have c1': "fst (safe_convert_with (convert ex_libs (PDFConverter, True)) ?long [''out'', ''a.txt''] ex_world)
       = (False, Some (exc_text (os_error ENAMETOOLONG ?long)))"
    using T[of ?long ex_world "convert ex_libs (PDFConverter, True)" "[''out'', ''a.txt'']"] v'
    by blast
  have t: "convert_single_try ex_libs ex_processor [''in'', ''a.pdf'']
            [''in'', ''b.xyz'', ''a.txt''] ex_world
       = (Inl (PyExc ''FileExistsError''
                (''[Errno 17] File exists: '' @ [CHR 0x27] @ ''in/b.xyz'' @ [CHR 0x27])), ex_world)"
    by code_simp
  have c2: "fst (convert_single ex_libs ex_processor [''in'', ''a.pdf''] [''in'', ''b.xyz'', ''a.txt''] ex_world)
       = \<lparr>input_path = [''in'', ''a.pdf''], output_path = [''in'', ''b.xyz'', ''a.txt''],
           success = False,
           error = Some (''FileExistsError: [Errno 17] File exists: ''
                           @ [CHR 0x27] @ ''in/b.xyz'' @ [CHR 0x27])\<rparr>"
    using T[of "[''in'', ''a.pdf'']" ex_world _ "[''in'', ''b.xyz'', ''a.txt'']" ex_libs ex_processor] t
    by (simp add: exc_text_def)
  have g3: "get_converter [''in'', ''c.docx''] (preserve_structure ex_processor) = Some (DOCXConverter, True)"
    by code_simp
  have m3: "mkdir_p (parent [''in'', ''c.txt'']) (fs ex_world) = Inr ex_tree"
    by code_simp
  have f3: "Path_is_file ex_tree [''in'', ''c.docx''] = Inr True" by code_simp
  have x3: "fst (extract_text ex_libs (DOCXConverter, True) [''in'', ''c.docx''] (ex_world\<lparr>fs := ex_tree\<rparr>))
       = Inl (PyExc ''ExtractionError'' ''bad'')"
    by code_simp
  have c3: "fst (convert_single ex_libs ex_processor [''in'', ''c.docx''] [''in'', ''c.txt''] ex_world)
       = \<lparr>input_path = [''in'', ''c.docx''], output_path = [''in'', ''c.txt''],
           success = False, error = Some ''Conversion failed''\<rparr>"
    using T[of "[''in'', ''c.docx'']" ex_world _ "[''in'', ''c.txt'']" ex_libs ex_processor] g3 m3 f3 x3
    by blast
  have g4: "get_converter [''in'', ''a.pdf''] (preserve_structure ex_processor) = Some (PDFConverter, True)"
    by code_simp
  have m4: "mkdir_p (parent [''in'']) (fs ex_world) = Inr ex_tree"
    by code_simp
  have f4: "Path_is_file ex_tree [''in'', ''a.pdf''] = Inr True" by code_simp
  have x4: "extract_text ex_libs (PDFConverter, True) [''in'', ''a.pdf''] (ex_world\<lparr>fs := ex_tree\<rparr>)
       = (Inr ''Hello'', ex_world)"
    by code_simp
  have w4: "fst (write_output ex_libs ''Hello'' [''in''] ex_world) = False"
    by code_simp
  have c4: "fst (convert_single ex_libs ex_processor [''in'', ''a.pdf''] [''in''] ex_world)
       = \<lparr>input_path = [''in'', ''a.pdf''], output_path = [''in''],
           success = False, error = Some ''Conversion failed''\<rparr>"
    using T[of "[''in'', ''a.pdf'']" ex_world _ "[''in'']" ex_libs ex_processor] g4 m4 f4 x4 w4
    by blast
  have pos: "0 < batch_size ex_processor" by (simp add: ex_processor_def)
  have c5: "\<exists>rs w'. process_batch ex_libs ex_processor [2, 0] ex_documents ex_world = (Inr rs, w')
         \<and> list_all (\<lambda>d. \<exists>r \<in> set rs. input_path r = fst d \<and> output_path r = snd d) ex_documents"
    using T[of _ ex_world _ _ ex_libs ex_processor "[2, 0]" ex_documents] pos
    unfolding list_all_iff by blast
  from v c1 v' c1' t c2 x3 c3 w4 c4 pos c5 show ?thesis by simp
qed

section \<open>Tasks without a converter\<close>

lemma convert_single_no_converter:
  assumes "get_converter inp (preserve_structure self) = None"
  shows "convert_single L self inp outp w
           = (\<lparr>input_path = inp, output_path = outp, success = False,
                error = Some (''No converter found for '' @ path_str inp)\<rparr>,
              log_to ERROR (''No converter found for '' @ path_str inp) w)"
  using assms by (simp add: convert_single_def convert_single_try_def Let_def)

lemma run_tasks_no_converter:
  "\<forall>d \<in> set ds. get_converter (fst d) (preserve_structure self) = None \<Longrightarrow>
     fs (snd (run_tasks L self ds w)) = fs w
     \<and> (\<forall>r \<in> set (fst (run_tasks L self ds w)). \<not> success r)"
proof (induction ds arbitrary: w)
  case Nil
  then show ?case by simp
next
  case (Cons d ds)
  from Cons.prems have n: "get_converter (fst d) (preserve_structure self) = None" by simp
  let ?w1 = "log_to ERROR (''No converter found for '' @ path_str (fst d)) w"
  from Cons.prems have "\<forall>d \<in> set ds. get_converter (fst d) (preserve_structure self) = None"
    by simp
  from Cons.IH[OF this, of ?w1]
  have ih: "fs (snd (run_tasks L self ds ?w1)) = fs w"
    "\<forall>r \<in> set (fst (run_tasks L self ds ?w1)). \<not> success r"
    by simp_all
  obtain rs w2 where t: "run_tasks L self ds ?w1 = (rs, w2)"
    by (cases "run_tasks L self ds ?w1")
  from convert_single_no_converter[OF n, of L "snd d" w] t
  have "run_tasks L self (d # ds) w
          = (\<lparr>input_path = fst d, output_path = snd d, success = False,
               error = Some (''No converter found for '' @ path_str (fst d))\<rparr> # rs, w2)"
    by simp
  with ih t show ?case by simp
qed

text \<open>
  Claim C8. A task whose input path resolves to no converter gets a failed result whose
  error says so (``No converter found for'' and the path: the program names the kind of
  the error by this text), and leaves the directory tree as it was: only a log record is
  added. Hence a task that changes the tree resolves to a converter, and a batch of such
  tasks runs to its end, with one failed result for each task and the tree unchanged.
\<close>

theorem unsupported_format_frame:
  "(get_converter inp (preserve_structure self) = None \<longrightarrow>
      fst (convert_single L self inp outp w)
        = \<lparr>input_path = inp, output_path = outp, success = False,
            error = Some (''No converter found for '' @ path_str inp)\<rparr>
      \<and> fs (snd (convert_single L self inp outp w)) = fs w)
   \<and> (fs (snd (convert_single L self inp outp w)) \<noteq> fs w \<longrightarrow>
        get_converter inp (preserve_structure self) \<noteq> None)
   \<and> (0 < batch_size self \<longrightarrow>
        (\<forall>d \<in> set documents. get_converter (fst d) (preserve_structure self) = None) \<longrightarrow>
        (\<exists>rs w'. process_batch L self sched documents w = (Inr rs, w')
           \<and> length rs = length documents \<and> (\<forall>r \<in> set rs. \<not> success r) \<and> fs w' = fs w))"
proof -
  have a: "fst (convert_single L self inp outp w)
        = \<lparr>input_path = inp, output_path = outp, success = False,
            error = Some (''No converter found for '' @ path_str inp)\<rparr>
      \<and> fs (snd (convert_single L self inp outp w)) = fs w"
    if "get_converter inp (preserve_structure self) = None"
    using convert_single_no_converter[OF that, of L outp w] by (simp add: log_to_def)
  have c: "\<exists>rs w'. process_batch L self sched documents w = (Inr rs, w')
           \<and> length rs = length documents \<and> (\<forall>r \<in> set rs. \<not> success r) \<and> fs w' = fs w"
    if pos: "0 < batch_size self"
      and n: "\<forall>d \<in> set documents. get_converter (fst d) (preserve_structure self) = None"
  proof (cases "documents = []")
    case True
    then show ?thesis by (simp add: process_batch_def)
  next
    case False
    let ?ds = "as_completed sched documents"
    let ?w1 = "log_to INFO (memory_status L) w"
    have "set ?ds = set documents"
      using mset_as_completed[of sched documents] by (metis set_mset_mset)
    with n have n': "\<forall>d \<in> set ?ds. get_converter (fst d) (preserve_structure self) = None"
      by simp
    obtain rs w2 where t: "run_tasks L self ?ds ?w1 = (rs, w2)"
      by (cases "run_tasks L self ?ds ?w1")
    from run_tasks_no_converter[OF n', of L ?w1] t
    have f: "fs w2 = fs w" "\<forall>r \<in> set rs. \<not> success r" by (simp_all add: log_to_def)
    from run_tasks_paths[OF t] have "length rs = length ?ds"
      by (metis length_map)
    also have "\<dots> = length documents"
      using mset_as_completed[of sched documents] by (metis size_mset)
    finally have l: "length rs = length documents" .
    from False pos t
    have "process_batch L self sched documents w = (Inr rs, log_to INFO (memory_status L) w2)"
      by (simp add: process_batch_def Let_def)
    with f l show ?thesis by (simp add: log_to_def)
  qed
  from a c show ?thesis by blast
qed

theorem unsupported_format_frame_witness:
  "get_converter [''in'', ''b.xyz''] (preserve_structure ex_processor) = None
   \<and> fst (convert_single ex_libs ex_processor [''in'', ''b.xyz''] [''out'', ''b.txt''] ex_world)
       = \<lparr>input_path = [''in'', ''b.xyz''], output_path = [''out'', ''b.txt''], success = False,
           error = Some ''No converter found for in/b.xyz''\<rparr>
   \<and> fs (snd (convert_single ex_libs ex_processor [''in'', ''b.xyz''] [''out'', ''b.txt''] ex_world))
       = ex_tree
   \<and> fs (snd (convert_single ex_libs ex_processor [''in'', ''a.pdf''] [''out'', ''a.txt''] ex_world))
       \<noteq> fs ex_world
   \<and> get_converter [''in'', ''a.pdf''] (preserve_structure ex_processor) \<noteq> None
   \<and> 0 < batch_size ex_processor
   \<and> (\<exists>rs w'. process_batch ex_libs ex_processor [] [([''in'', ''b.xyz''], [''out'', ''b.txt''])]
                  ex_world = (Inr rs, w')
         \<and> length rs = 1 \<and> list_all (\<lambda>r. \<not> success r) rs \<and> fs w' = ex_tree)"
proof -
  note T = unsupported_format_frame
  have g: "get_converter [''in'', ''b.xyz''] (preserve_structure ex_processor) = None"
    by code_simp
  have e: "fs ex_world = ex_tree" by (simp add: ex_world_def)
  have p: "''No converter found for '' @ path_str [''in'', ''b.xyz''] = ''No converter found for in/b.xyz''"
    by simp
  have c1: "fst (convert_single ex_libs ex_processor [''in'', ''b.xyz''] [''out'', ''b.txt''] ex_world)
       = \<lparr>input_path = [''in'', ''b.xyz''], output_path = [''out'', ''b.txt''], success = False,
           error = Some ''No converter found for in/b.xyz''\<rparr>
     \<and> fs (snd (convert_single ex_libs ex_processor [''in'', ''b.xyz''] [''out'', ''b.txt''] ex_world))
       = ex_tree"
    using T[of "[''in'', ''b.xyz'']" ex_processor ex_libs "[''out'', ''b.txt'']" ex_world] g e p
    by simp
  have m: "fs (snd (convert_single ex_libs ex_processor [''in'', ''a.pdf''] [''out'', ''a.txt''] ex_world))
       \<noteq> fs ex_world"
    by code_simp
  have c2: "get_converter [''in'', ''a.pdf''] (preserve_structure ex_processor) \<noteq> None"
    using T[of "[''in'', ''a.pdf'']" ex_processor ex_libs "[''out'', ''a.txt'']" ex_world] m
    by blast
  have pos: "0 < batch_size ex_processor" by (simp add: ex_processor_def)
  have c3: "\<exists>rs w'. process_batch ex_libs ex_processor [] [([''in'', ''b.xyz''], [''out'', ''b.txt''])]
                  ex_world = (Inr rs, w')
         \<and> length rs = 1 \<and> list_all (\<lambda>r. \<not> success r) rs \<and> fs w' = ex_tree"
    using T[of _ ex_processor ex_libs _ ex_world "[([''in'', ''b.xyz''], [''out'', ''b.txt''])]" "[]"]
      pos g e
    unfolding list_all_iff by simp
  from g c1 m c2 pos c3 show ?thesis by blast
qed


section \<open>The report of an empty run\<close>

text \<open>
  Claim C7. \<^const>\<open>generate_report\<close> never raises, whatever the results; on the empty
  result set the line of the success rate is the text \<open>N/A\<close>, and the division is not
  evaluated. A run in which discovery finds nothing hands exactly this empty result set
  from \<^const>\<open>process_all\<close> to the report.
\<close>

theorem report_of_empty_results:
  "(\<exists>s. generate_report L results = Inr s)
   \<and> generate_report L \<lparr>successful = [], failed = []\<rparr>
       = Inr (join_lines
           [[CHR 0x0A] @ replicate 60 CHR ''='', ''CONVERSION REPORT'', replicate 60 CHR ''='',
            ''Total documents: 0'', ''Successful: 0'', ''Failed: 0'', ''N/A'',
            replicate 60 CHR ''='', replicate 60 CHR ''='' @ [CHR 0x0A]])
   \<and> (fst (discover_documents self w) = Inr [] \<longrightarrow>
        fst (process_all L self sched w) = Inr \<lparr>successful = [], failed = []\<rparr>)"
proof -
  have a: "\<exists>s. generate_report L results = Inr s"
    by (simp add: generate_report_def py_truediv_def Let_def)
  have b: "generate_report L \<lparr>successful = [], failed = []\<rparr>
       = Inr (join_lines
           [[CHR 0x0A] @ replicate 60 CHR ''='', ''CONVERSION REPORT'', replicate 60 CHR ''='',
            ''Total documents: 0'', ''Successful: 0'', ''Failed: 0'', ''N/A'',
            replicate 60 CHR ''='', replicate 60 CHR ''='' @ [CHR 0x0A]])"
  proof -
    have "str_nat 0 = ''0''" by code_simp
    then show ?thesis by (simp add: generate_report_def Let_def del: str_nat.simps)
  qed
  have c: "fst (process_all L self sched w) = Inr \<lparr>successful = [], failed = []\<rparr>"
    if "fst (discover_documents self w) = Inr []"
    using that by (cases "discover_documents self w") (simp add: process_all_def)
  from a b c show ?thesis by blast
qed

theorem report_of_empty_results_witness:
  "fst (discover_documents ex_processor \<lparr>fs = Dir [(''in'', Dir [])], logged = []\<rparr>) = Inr []
   \<and> fst (process_all ex_libs ex_processor [] \<lparr>fs = Dir [(''in'', Dir [])], logged = []\<rparr>)
       = Inr \<lparr>successful = [], failed = []\<rparr>
   \<and> (\<exists>s. generate_report ex_libs \<lparr>successful = [], failed = []\<rparr> = Inr s)"
proof -
  have d: "fst (discover_documents ex_processor \<lparr>fs = Dir [(''in'', Dir [])], logged = []\<rparr>) = Inr []"
    by code_simp
  from report_of_empty_results
    [of ex_libs "\<lparr>successful = [], failed = []\<rparr>" ex_processor
        "\<lparr>fs = Dir [(''in'', Dir [])], logged = []\<rparr>" "[]"] d
  show ?thesis by blast
qed

section \<open>The cap on the pool size\<close>

text \<open>
  Claim C3, as stated, fails: a batch size below 1 is not raised to 1.
  \<^const>\<open>BatchProcessor_init\<close> keeps it (here 0, which is not the processor made from 1), the
  pool then refuses to start, and \<^const>\<open>validate_config\<close> rejects it, as it rejects 60,
  instead of clamping.
\<close>

theorem concurrency_clamp_counterexample:
  "fst (BatchProcessor_init [''in''] [''out''] 0 10 True True False ex_world)
     = Inr (ex_processor\<lparr>batch_size := 0\<rparr>)
   \<and> \<not> (1 \<le> batch_size (ex_processor\<lparr>batch_size := 0\<rparr>))
   \<and> fst (BatchProcessor_init [''in''] [''out''] 0 10 True True False ex_world)
       \<noteq> fst (BatchProcessor_init [''in''] [''out''] 1 10 True True False ex_world)
   \<and> fst (process_batch ex_libs (ex_processor\<lparr>batch_size := 0\<rparr>) [] ex_documents ex_world)
       = Inl (PyExc ''ValueError'' ''max_workers must be greater than 0'')
   \<and> fst (validate_config
            \<lparr>cfg_input_folder = ''in'', cfg_output_folder = ''out'', cfg_batch_size = 0,
             cfg_max_memory_gb = 10, cfg_log_file = ''logs/converter.log''\<rparr> ex_world)
       = Inl (PyExc ''ValueError'' ''batch_size must be between 1 and 50'')
   \<and> fst (validate_config
            \<lparr>cfg_input_folder = ''in'', cfg_output_folder = ''out'', cfg_batch_size = 60,
             cfg_max_memory_gb = 10, cfg_log_file = ''logs/converter.log''\<rparr> ex_world)
       = Inl (PyExc ''ValueError'' ''batch_size must be between 1 and 50'')"
proof -
  have m: "mkdir_p [''out''] (fs ex_world) = Inr (Dir [(''in'', Dir [(''a.pdf'', File ''Hello''), (''b.xyz'', File ''x''),
                        (''c.docx'', File ''y''), (''d.mobi'', File ''raw'')]), (''out'', Dir [])])"
    by code_simp
  have a: "fst (BatchProcessor_init [''in''] [''out''] 0 10 True True False ex_world)
     = Inr (ex_processor\<lparr>batch_size := 0\<rparr>)"
    by (simp add: BatchProcessor_init_def m ex_processor_def)
  have b: "fst (BatchProcessor_init [''in''] [''out''] 1 10 True True False ex_world)
     = Inr (ex_processor\<lparr>batch_size := 1\<rparr>)"
    by (simp add: BatchProcessor_init_def m ex_processor_def)
  have c: "fst (process_batch ex_libs (ex_processor\<lparr>batch_size := 0\<rparr>) [] ex_documents ex_world)
       = Inl (PyExc ''ValueError'' ''max_workers must be greater than 0'')"
    by (simp add: process_batch_def ex_documents_def Let_def)
  show ?thesis
    unfolding a b c by (simp add: validate_config_def ex_processor_def)
qed

text \<open>
  Claim C3, amended. The pool size a processor works with is the minimum of the configured
  batch size and 10: it never exceeds 10, a configured 25 (or any value from 10 on) gives
  the very processor a configured 10 gives, and a batch size of at least 1 stays at least
  1. Values below 1 are not clamped: \<^const>\<open>validate_config\<close> accepts only 1..50, so that
  every accepted batch size gives a pool size in 1..10, and rejects the others with
  \<^verbatim>\<open>ValueError\<close>.
\<close>

theorem concurrency_capped:
  "(\<forall>self w'. BatchProcessor_init inp outp b mem preserve skip overwrite w = (Inr self, w') \<longrightarrow>
       batch_size self = min b 10 \<and> batch_size self \<le> 10 \<and> (1 \<le> b \<longrightarrow> 1 \<le> batch_size self))
   \<and> (10 \<le> b \<longrightarrow>
        BatchProcessor_init inp outp b mem preserve skip overwrite w
          = BatchProcessor_init inp outp 10 mem preserve skip overwrite w)
   \<and> BatchProcessor_init inp outp 25 mem preserve skip overwrite w
       = BatchProcessor_init inp outp 10 mem preserve skip overwrite w
   \<and> (fst (validate_config c w) = Inr () \<longrightarrow>
        1 \<le> min (cfg_batch_size c) 10 \<and> min (cfg_batch_size c) 10 \<le> 10)
   \<and> (cfg_batch_size c < 1 \<or> 50 < cfg_batch_size c \<longrightarrow>
        validate_config c w
          = (Inl (PyExc ''ValueError'' ''batch_size must be between 1 and 50''), w))"
proof -
  have a: "batch_size self = min b 10 \<and> batch_size self \<le> 10 \<and> (1 \<le> b \<longrightarrow> 1 \<le> batch_size self)"
    if "BatchProcessor_init inp outp b mem preserve skip overwrite w = (Inr self, w')"
    for self w'
    using that by (auto simp: BatchProcessor_init_def Let_def split: sum.splits prod.splits)
  have b: "BatchProcessor_init inp outp b mem preserve skip overwrite w
          = BatchProcessor_init inp outp 10 mem preserve skip overwrite w"
    if "10 \<le> b"
    using that by (simp add: BatchProcessor_init_def min_absorb2)
  have c: "BatchProcessor_init inp outp 25 mem preserve skip overwrite w
       = BatchProcessor_init inp outp 10 mem preserve skip overwrite w"
    by (simp add: BatchProcessor_init_def)
  have d: "1 \<le> min (cfg_batch_size c) 10 \<and> min (cfg_batch_size c) 10 \<le> 10"
    if "fst (validate_config c w) = Inr ()"
    using that by (auto simp: validate_config_def split: if_splits)
  have e: "validate_config c w
          = (Inl (PyExc ''ValueError'' ''batch_size must be between 1 and 50''), w)"
    if "cfg_batch_size c < 1 \<or> 50 < cfg_batch_size c"
    using that by (auto simp: validate_config_def)
  from a b c d e show ?thesis by blast
qed

theorem concurrency_capped_witness:
  "(\<exists>self w'. BatchProcessor_init [''in''] [''out''] 25 10 True True False ex_world = (Inr self, w')
       \<and> batch_size self = 10)
   \<and> (10 :: int) \<le> 25
   \<and> BatchProcessor_init [''in''] [''out''] 25 10 True True False ex_world
       = BatchProcessor_init [''in''] [''out''] 10 10 True True False ex_world
   \<and> fst (validate_config
            \<lparr>cfg_input_folder = ''in'', cfg_output_folder = ''out'', cfg_batch_size = 25,
             cfg_max_memory_gb = 10, cfg_log_file = ''logs/converter.log''\<rparr> ex_world)
       = Inr ()
   \<and> (1 :: int) \<le> min 25 10
   \<and> (0 :: int) < 1
   \<and> validate_config
        \<lparr>cfg_input_folder = ''in'', cfg_output_folder = ''out'', cfg_batch_size = 0,
         cfg_max_memory_gb = 10, cfg_log_file = ''logs/converter.log''\<rparr> ex_world
       = (Inl (PyExc ''ValueError'' ''batch_size must be between 1 and 50''), ex_world)"
proof -
  let ?c25 = "\<lparr>cfg_input_folder = ''in'', cfg_output_folder = ''out'', cfg_batch_size = 25,
             cfg_max_memory_gb = 10, cfg_log_file = ''logs/converter.log''\<rparr>"
  let ?c0 = "\<lparr>cfg_input_folder = ''in'', cfg_output_folder = ''out'', cfg_batch_size = 0,
             cfg_max_memory_gb = 10, cfg_log_file = ''logs/converter.log''\<rparr>"
  note T25 = concurrency_capped
    [of "[''in'']" "[''out'']" 25 10 True True False ex_world ?c25]
  note T0 = concurrency_capped
    [of "[''in'']" "[''out'']" 25 10 True True False ex_world ?c0]
  have "mkdir_p [''out''] (fs ex_world)
          = Inr (Dir [(''in'', Dir [(''a.pdf'', File ''Hello''), (''b.xyz'', File ''x''),
                        (''c.docx'', File ''y''), (''d.mobi'', File ''raw'')]), (''out'', Dir [])])"
    by code_simp
  then obtain self w' where
    i: "BatchProcessor_init [''in''] [''out''] 25 10 True True False ex_world = (Inr self, w')"
    by (auto simp: BatchProcessor_init_def Let_def)
  with T25 have s: "batch_size self = 10" by simp
  have v: "fst (validate_config ?c25 ex_world) = Inr ()"
    by code_simp
  from i s T25 T0 v show ?thesis by simp
qed

section \<open>Discovery below a missing input folder\<close>





section \<open>The fallback of the MOBI converter\<close>

lemma write_output_fs_only:
  assumes "fs w = fs w'"
  shows "fst (write_output L body outp w) = fst (write_output L body outp w')
         \<and> fs (snd (write_output L body outp w)) = fs (snd (write_output L body outp w'))"
  using assms by (simp add: write_output_def split: sum.splits prod.splits)

lemma write_file_encoder:
  assumes "utf8_encode L' = utf8_encode L"
  shows "write_file L' p c t = write_file L p c t"
  unfolding write_file_def assms ..

lemma write_output_encoder:
  assumes "utf8_encode L' = utf8_encode L"
  shows "write_output L' body outp w = write_output L body outp w"
  unfolding write_output_def write_file_encoder[OF assms] ..

lemma write_output_succeeds:
  assumes "mkdir_p (parent outp) (fs w) = Inr t1" and "write_file L outp body t1 = Inr t2"
  shows "fst (write_output L body outp w) = True \<and> fs (snd (write_output L body outp w)) = t2"
  using assms by (simp add: write_output_def)

lemma fs_mobi_primary: "fs (snd (mobi_primary L preserve inp w)) = fs w"
  by (simp add: mobi_primary_def split: sum.splits option.splits)

lemma read_file_is_file: "read_file t inp = Inr content \<Longrightarrow> Path_is_file t inp = Inr True"
  by (auto simp: read_file_def Path_is_file_def Path_test_def split: sum.splits node.splits)

lemma mobi_fallback_text:
  assumes "read_file (fs w) inp = Inr content"
    and "fst (mobi_primary L preserve inp w) = Inl e"
  shows "\<exists>w1. extract_text L (MOBIConverter, preserve) inp w
                = (Inr (utf8_decode_ignore L content), w1) \<and> fs w1 = fs w"
proof -
  obtain w1 where p: "mobi_primary L preserve inp w = (Inl e, w1)"
    using assms(2) by (cases "mobi_primary L preserve inp w") simp
  from fs_mobi_primary[of L preserve inp w] p have "fs w1 = fs w" by simp
  with p assms(1) show ?thesis
    by (simp add: extract_text_def mobi_extract_text_def Let_def)
qed

lemma mobi_primary_text:
  assumes "fst (mobi_primary L preserve inp w) = Inr body"
  shows "\<exists>w1. extract_text L (MOBIConverter, preserve) inp w = (Inr body, w1) \<and> fs w1 = fs w"
proof -
  obtain w1 where p: "mobi_primary L preserve inp w = (Inr body, w1)"
    using assms by (cases "mobi_primary L preserve inp w") simp
  from fs_mobi_primary[of L preserve inp w] p have "fs w1 = fs w" by simp
  with p show ?thesis
    by (simp add: extract_text_def mobi_extract_text_def)
qed

lemma convert_single_of_text:
  assumes g: "get_converter inp (preserve_structure self) = Some conv"
    and m: "mkdir_p (parent outp) (fs w) = Inr t"
    and f: "Path_is_file t inp = Inr True"
    and x: "extract_text L conv inp (w\<lparr>fs := t\<rparr>) = (Inr body, w1)"
    and t: "fs w1 = t"
  shows "fst (convert_single L self inp outp w)
           = (if body \<noteq> [] \<and> fst (write_output L body outp (w\<lparr>fs := t\<rparr>))
              then \<lparr>input_path = inp, output_path = outp, success = True, error = None\<rparr>
              else \<lparr>input_path = inp, output_path = outp, success = False,
                     error = Some ''Conversion failed''\<rparr>)
         \<and> fs (snd (convert_single L self inp outp w))
           = (if body \<noteq> [] then fs (snd (write_output L body outp (w\<lparr>fs := t\<rparr>))) else t)"
proof -
  from f have v: "validate_input inp (w\<lparr>fs := t\<rparr>) = (Inr True, w\<lparr>fs := t\<rparr>)"
    by (simp add: validate_input_file)
  from t have e: "fs w1 = fs (w\<lparr>fs := t\<rparr>)" by simp
  note wo = write_output_fs_only[OF e, of L body outp]
  obtain b w2 where o: "write_output L body outp w1 = (b, w2)"
    by (cases "write_output L body outp w1")
  from o wo have b: "b = fst (write_output L body outp (w\<lparr>fs := t\<rparr>))"
    and w2: "fs w2 = fs (snd (write_output L body outp (w\<lparr>fs := t\<rparr>)))"
    by simp_all
  show ?thesis
  proof (cases "body = []")
    case True
    with x have "convert L conv inp outp (w\<lparr>fs := t\<rparr>) = (Inr False, w1)"
      by (simp add: convert_def)
    with v have "safe_convert L conv inp outp (w\<lparr>fs := t\<rparr>)
                   = ((False, Some ''Conversion failed''), w1)"
      by (simp add: safe_convert_def safe_convert_with_def)
    with g m True t show ?thesis
      by (simp add: convert_single_def convert_single_try_def)
  next
    case False
    with x o have c: "convert L conv inp outp (w\<lparr>fs := t\<rparr>) = (Inr b, w2)"
      by (simp add: convert_def)
    show ?thesis
    proof (cases b)
      case True
      with c v have "safe_convert L conv inp outp (w\<lparr>fs := t\<rparr>) = ((True, None), w2)"
        by (simp add: safe_convert_def safe_convert_with_def)
      with g m False True b w2 show ?thesis
        by (simp add: convert_single_def convert_single_try_def)
    next
      case nb: False
      with c v have "safe_convert L conv inp outp (w\<lparr>fs := t\<rparr>)
                       = ((False, Some ''Conversion failed''), w2)"
        by (simp add: safe_convert_def safe_convert_with_def)
      with g m False nb b w2 show ?thesis
        by (simp add: convert_single_def convert_single_try_def)
    qed
  qed
qed

text \<open>
  Claim C9. When the primary extraction of a MOBI file raises, \<^const>\<open>extract_text\<close> returns
  the decoded bytes of the input file as an ordinary text. When this text is non-empty and
  the output can be written, the task is a success with no error, and the output file
  holds that text. The result and the directory tree are those of a run in which
  the primary extraction returned the same text: nothing in the result tells the fallback
  from the primary extraction.
\<close>

theorem mobi_fallback_is_silent_success:
  "(\<forall>content e. read_file (fs w) inp = Inr content \<longrightarrow>
       fst (mobi_primary L preserve inp w) = Inl e \<longrightarrow>
       fst (extract_text L (MOBIConverter, preserve) inp w) = Inr (utf8_decode_ignore L content))
   \<and> (\<forall>t content e t1 t2.
         get_converter inp (preserve_structure self) = Some (MOBIConverter, preserve) \<longrightarrow>
         mkdir_p (parent outp) (fs w) = Inr t \<longrightarrow>
         read_file t inp = Inr content \<longrightarrow>
         fst (mobi_primary L preserve inp (w\<lparr>fs := t\<rparr>)) = Inl e \<longrightarrow>
         utf8_decode_ignore L content \<noteq> [] \<longrightarrow>
         mkdir_p (parent outp) t = Inr t1 \<longrightarrow>
         write_file L outp (utf8_decode_ignore L content) t1 = Inr t2 \<longrightarrow>
         fst (convert_single L self inp outp w)
           = \<lparr>input_path = inp, output_path = outp, success = True, error = None\<rparr>
         \<and> fs (snd (convert_single L self inp outp w)) = t2)
   \<and> (\<forall>t content e L'.
         get_converter inp (preserve_structure self) = Some (MOBIConverter, preserve) \<longrightarrow>
         mkdir_p (parent outp) (fs w) = Inr t \<longrightarrow>
         read_file t inp = Inr content \<longrightarrow>
         fst (mobi_primary L preserve inp (w\<lparr>fs := t\<rparr>)) = Inl e \<longrightarrow>
         fst (mobi_primary L' preserve inp (w\<lparr>fs := t\<rparr>)) = Inr (utf8_decode_ignore L content) \<longrightarrow>
         utf8_encode L' = utf8_encode L \<longrightarrow>
         fst (convert_single L self inp outp w) = fst (convert_single L' self inp outp w)
         \<and> fs (snd (convert_single L self inp outp w))
             = fs (snd (convert_single L' self inp outp w)))"
proof -
  have a: "fst (extract_text L (MOBIConverter, preserve) inp w) = Inr (utf8_decode_ignore L content)"
    if "read_file (fs w) inp = Inr content" "fst (mobi_primary L preserve inp w) = Inl e"
    for content e
    using mobi_fallback_text[OF that] by auto
  have fallback: "\<exists>w1. extract_text L (MOBIConverter, preserve) inp (w\<lparr>fs := t\<rparr>)
                = (Inr (utf8_decode_ignore L content), w1) \<and> fs w1 = t"
    if "read_file t inp = Inr content"
      "fst (mobi_primary L preserve inp (w\<lparr>fs := t\<rparr>)) = Inl e" for t content e
    using mobi_fallback_text[of "w\<lparr>fs := t\<rparr>" inp content L preserve e] that by simp
  have b: "fst (convert_single L self inp outp w)
           = \<lparr>input_path = inp, output_path = outp, success = True, error = None\<rparr>
         \<and> fs (snd (convert_single L self inp outp w)) = t2"
    if g: "get_converter inp (preserve_structure self) = Some (MOBIConverter, preserve)"
      and m: "mkdir_p (parent outp) (fs w) = Inr t"
      and r: "read_file t inp = Inr content"
      and p: "fst (mobi_primary L preserve inp (w\<lparr>fs := t\<rparr>)) = Inl e"
      and n: "utf8_decode_ignore L content \<noteq> []"
      and w1: "mkdir_p (parent outp) t = Inr t1"
      and w2: "write_file L outp (utf8_decode_ignore L content) t1 = Inr t2"
    for t content e t1 t2
  proof -
    from fallback[OF r p] obtain w1' where
      x: "extract_text L (MOBIConverter, preserve) inp (w\<lparr>fs := t\<rparr>)
            = (Inr (utf8_decode_ignore L content), w1')" and t: "fs w1' = t"
      by blast
    from w1 have "mkdir_p (parent outp) (fs (w\<lparr>fs := t\<rparr>)) = Inr t1" by simp
    from write_output_succeeds[OF this w2]
    have "fst (write_output L (utf8_decode_ignore L content) outp (w\<lparr>fs := t\<rparr>)) = True"
      "fs (snd (write_output L (utf8_decode_ignore L content) outp (w\<lparr>fs := t\<rparr>))) = t2"
      by simp_all
    with convert_single_of_text[OF g m read_file_is_file[OF r] x t] n
    show ?thesis by simp
  qed
  have c: "fst (convert_single L self inp outp w) = fst (convert_single L' self inp outp w)
         \<and> fs (snd (convert_single L self inp outp w))
             = fs (snd (convert_single L' self inp outp w))"
    if g: "get_converter inp (preserve_structure self) = Some (MOBIConverter, preserve)"
      and m: "mkdir_p (parent outp) (fs w) = Inr t"
      and r: "read_file t inp = Inr content"
      and p: "fst (mobi_primary L preserve inp (w\<lparr>fs := t\<rparr>)) = Inl e"
      and p': "fst (mobi_primary L' preserve inp (w\<lparr>fs := t\<rparr>)) = Inr (utf8_decode_ignore L content)"
      and enc: "utf8_encode L' = utf8_encode L"
    for t content e L'
  proof -
    from fallback[OF r p] obtain w1 where
      x: "extract_text L (MOBIConverter, preserve) inp (w\<lparr>fs := t\<rparr>)
            = (Inr (utf8_decode_ignore L content), w1)" and t: "fs w1 = t"
      by blast
    from mobi_primary_text[OF p'] obtain w1' where
      x': "extract_text L' (MOBIConverter, preserve) inp (w\<lparr>fs := t\<rparr>)
            = (Inr (utf8_decode_ignore L content), w1')" and t': "fs w1' = t"
      by auto
    from convert_single_of_text[OF g m read_file_is_file[OF r] x t]
      convert_single_of_text[OF g m read_file_is_file[OF r] x' t']
    show ?thesis by (simp add: write_output_encoder[OF enc])
  qed
  from a b c show ?thesis by blast
qed

text \<open>
  The witness: the MOBI file of the concrete run, whose library raises; for the last part,
  the same libraries with a MOBI extraction that returns the text \<open>raw\<close>.
\<close>

theorem mobi_fallback_is_silent_success_witness:
  "read_file ex_tree [''in'', ''d.mobi''] = Inr ''raw''
   \<and> fst (mobi_primary ex_libs True [''in'', ''d.mobi''] ex_world) = Inl (PyExc ''MobiError'' ''corrupt'')
   \<and> fst (extract_text ex_libs (MOBIConverter, True) [''in'', ''d.mobi''] ex_world) = Inr ''raw''
   \<and> get_converter [''in'', ''d.mobi''] (preserve_structure ex_processor) = Some (MOBIConverter, True)
   \<and> mkdir_p (parent [''in'', ''d.txt'']) (fs ex_world) = Inr ex_tree
   \<and> utf8_decode_ignore ex_libs ''raw'' \<noteq> []
   \<and> (\<exists>t2. write_file ex_libs [''in'', ''d.txt''] (utf8_decode_ignore ex_libs ''raw'') ex_tree = Inr t2
         \<and> fs (snd (convert_single ex_libs ex_processor [''in'', ''d.mobi''] [''in'', ''d.txt''] ex_world)) = t2
         \<and> lookup t2 [''in'', ''d.txt''] = Some (File ''raw''))
   \<and> fst (convert_single ex_libs ex_processor [''in'', ''d.mobi''] [''in'', ''d.txt''] ex_world)
       = \<lparr>input_path = [''in'', ''d.mobi''], output_path = [''in'', ''d.txt''],
           success = True, error = None\<rparr>
   \<and> fst (mobi_primary (ex_libs\<lparr>mobi_extract := \<lambda>s. Inr (Some s)\<rparr>) True [''in'', ''d.mobi''] ex_world)
       = Inr ''raw''
   \<and> fst (convert_single ex_libs ex_processor [''in'', ''d.mobi''] [''in'', ''d.txt''] ex_world)
       = fst (convert_single (ex_libs\<lparr>mobi_extract := \<lambda>s. Inr (Some s)\<rparr>) ex_processor
                [''in'', ''d.mobi''] [''in'', ''d.txt''] ex_world)"
proof -
  note T = mobi_fallback_is_silent_success
    [of ex_world "[''in'', ''d.mobi'']" ex_libs True ex_processor "[''in'', ''d.txt'']"]
  let ?L' = "ex_libs\<lparr>mobi_extract := \<lambda>s. Inr (Some s)\<rparr>"
  let ?t2 = "Dir [(''in'', Dir [(''a.pdf'', File ''Hello''), (''b.xyz'', File ''x''),
                        (''c.docx'', File ''y''), (''d.mobi'', File ''raw''),
                        (''d.txt'', File ''raw'')])]"
  have e: "fs ex_world = ex_tree" by (simp add: ex_world_def)
  have e2: "ex_world\<lparr>fs := ex_tree\<rparr> = ex_world" by (simp add: ex_world_def)
  have r: "read_file ex_tree [''in'', ''d.mobi''] = Inr ''raw''" by code_simp
  have p: "fst (mobi_primary ex_libs True [''in'', ''d.mobi''] ex_world) = Inl (PyExc ''MobiError'' ''corrupt'')"
    by code_simp
  have g: "get_converter [''in'', ''d.mobi''] (preserve_structure ex_processor) = Some (MOBIConverter, True)"
    by code_simp
  have m: "mkdir_p (parent [''in'', ''d.txt'']) ex_tree = Inr ex_tree" by code_simp
  have u: "utf8_decode_ignore ex_libs ''raw'' = ''raw''" by (simp add: ex_libs_def)
  have wf: "write_file ex_libs [''in'', ''d.txt''] ''raw'' ex_tree = Inr ?t2" by code_simp
  have l: "lookup ?t2 [''in'', ''d.txt''] = Some (File ''raw'')" by code_simp
  have p': "fst (mobi_primary ?L' True [''in'', ''d.mobi''] ex_world) = Inr ''raw''"
    by code_simp
  have r': "read_file (fs ex_world) [''in'', ''d.mobi''] = Inr ''raw''"
    using r e by simp
  have m': "mkdir_p (parent [''in'', ''d.txt'']) (fs ex_world) = Inr ex_tree"
    using m e by simp
  have pe: "fst (mobi_primary ex_libs True [''in'', ''d.mobi''] (ex_world\<lparr>fs := ex_tree\<rparr>))
              = Inl (PyExc ''MobiError'' ''corrupt'')"
    using p by (simp only: e2)
  have pe': "fst (mobi_primary ?L' True [''in'', ''d.mobi''] (ex_world\<lparr>fs := ex_tree\<rparr>))
              = Inr (utf8_decode_ignore ex_libs ''raw'')"
    using p' by (simp only: e2 u)
  have n: "utf8_decode_ignore ex_libs ''raw'' \<noteq> []" using u by simp
  have wf': "write_file ex_libs [''in'', ''d.txt''] (utf8_decode_ignore ex_libs ''raw'') ex_tree = Inr ?t2"
    using wf u by simp
  from T[THEN conjunct1, rule_format, OF r' p]
  have c1: "fst (extract_text ex_libs (MOBIConverter, True) [''in'', ''d.mobi''] ex_world) = Inr ''raw''"
    using u by simp
  from T[THEN conjunct2, THEN conjunct1, rule_format, OF g m' r pe n m wf']
  have c2: "fst (convert_single ex_libs ex_processor [''in'', ''d.mobi''] [''in'', ''d.txt''] ex_world)
       = \<lparr>input_path = [''in'', ''d.mobi''], output_path = [''in'', ''d.txt''],
           success = True, error = None\<rparr>"
    and c2': "fs (snd (convert_single ex_libs ex_processor [''in'', ''d.mobi''] [''in'', ''d.txt''] ex_world)) = ?t2"
    by blast+
  have en: "utf8_encode ?L' = utf8_encode ex_libs" by simp
  from T[THEN conjunct2, THEN conjunct2, rule_format, OF g m' r pe pe' en]
  have c3: "fst (convert_single ex_libs ex_processor [''in'', ''d.mobi''] [''in'', ''d.txt''] ex_world)
       = fst (convert_single ?L' ex_processor [''in'', ''d.mobi''] [''in'', ''d.txt''] ex_world)"
    by blast
  have ex: "\<exists>t2. write_file ex_libs [''in'', ''d.txt''] (utf8_decode_ignore ex_libs ''raw'') ex_tree = Inr t2
         \<and> fs (snd (convert_single ex_libs ex_processor [''in'', ''d.mobi''] [''in'', ''d.txt''] ex_world)) = t2
         \<and> lookup t2 [''in'', ''d.txt''] = Some (File ''raw'')"
    using wf' c2' l by blast
  from r p c1 g m' n ex c2 p' c3 show ?thesis by blast

qed


section \<open>Discovery\<close>

lemma stat_at_lookup: "stat_at t p = Inr n \<Longrightarrow> lookup t p = Some n"
  by (induction t p rule: stat_at.induct) (auto split: if_splits option.splits)

lemma stat_at_missing:
  "stat_at t p = Inl e \<Longrightarrow> e = ENOENT \<or> e = ENOTDIR \<Longrightarrow> lookup t p = None"
  by (induction t p rule: stat_at.induct) (auto split: if_splits option.splits)

lemma Path_exists_value: "Path_exists t p = Inr b \<Longrightarrow> b = exists t p"
  by (auto simp: Path_exists_def Path_test_def os_stat_def exists_def
        split: sum.splits if_splits dest: stat_at_lookup stat_at_missing)

lemma os_walk_prefix:
  "(r, ds, fls) \<in> set (os_walk s tp n) \<Longrightarrow> prefix tp r"
proof (induction s tp n arbitrary: r ds fls rule: os_walk.induct)
  case (1 s tp c)
  then show ?case by simp
next
  case (2 s tp es)
  from "2.prems" have short: "\<not> PATH_MAX \<le> length s"
    by (auto split: if_splits)
  with "2.prems" consider "r = tp"
    | e where "e \<in> set es" "(r, ds, fls) \<in> set (os_walk (s @ ''/'' @ fst e) (tp @ [fst e]) (snd e))"
    by auto
  then show ?case
  proof cases
    case 1
    then show ?thesis by simp
  next
    case 2
    from "2.IH"[OF short 2] have "prefix (tp @ [fst e]) r" .
    then show ?thesis by (metis append_prefixD)
  qed
qed

lemma tree_walk_prefix:
  "(r, ds, fls) \<in> set (tree_walk tp n) \<Longrightarrow> prefix tp r"
proof (induction tp n arbitrary: r ds fls rule: tree_walk.induct)
  case (1 tp c)
  then show ?case by simp
next
  case (2 tp es)
  from "2.prems" consider "r = tp"
    | e where "e \<in> set es" "(r, ds, fls) \<in> set (tree_walk (tp @ [fst e]) (snd e))"
    by auto
  then show ?case
  proof cases
    case 1
    then show ?thesis by simp
  next
    case 2
    from "2.IH"[OF 2] have "prefix (tp @ [fst e]) r" .
    then show ?thesis by (metis append_prefixD)
  qed
qed

lemma walk_input_prefix:
  "tr \<in> set (walk_input self t) \<Longrightarrow> prefix (input_folder self) (fst tr)"
  by (cases tr) (auto simp: walk_input_def split: option.splits dest: os_walk_prefix)

lemma supported_suffix_nonempty: "is_supported p \<Longrightarrow> suffix_of p \<noteq> []"
proof
  assume s: "is_supported p" and e: "suffix_of p = []"
  have "map_of CONVERTER_MAP [] = None" by (simp add: CONVERTER_MAP_def)
  with s e show False by (simp add: is_supported_def)
qed

lemma suffix_nonempty_name: "suffix_of p \<noteq> [] \<Longrightarrow> name p \<noteq> []"
  by (auto simp: suffix_of_def Let_def split: if_splits)

lemma name_append_single [simp]: "name (r @ [f]) = f"
  by (simp add: name_def)

lemma suffix_of_name: "name p = name q \<Longrightarrow> suffix_of p = suffix_of q"
  by (simp add: suffix_of_def)

lemma output_path_for_supported:
  assumes "prefix (input_folder self) r" and "is_supported (r @ [f])"
  shows "\<exists>outp. output_path_for self (r @ [f]) = Inr outp"
proof -
  from assms(1) have p: "prefix (input_folder self) (r @ [f])" by (simp add: prefix_def) auto
  from assms(1) have l: "length (input_folder self) \<le> length r" by (rule prefix_length_le)
  then have d: "drop (length (input_folder self)) (r @ [f])
                  = drop (length (input_folder self)) r @ [f]"
    by simp
  from assms(2) have "name (r @ [f]) \<noteq> []"
    by (intro suffix_nonempty_name supported_suffix_nonempty)
  then have "name (drop (length (input_folder self)) r @ [f]) \<noteq> []" by simp
  with p d show ?thesis
    by (simp add: output_path_for_def relative_to_def with_suffix_def Let_def)
qed

text \<open>
  What the loops of discovery give: the tree is never changed; when every existence check
  returns, the tasks appended are those of \<^const>\<open>emitted\<close>, in the order of the walk; when
  one raises, so does discovery.
\<close>

lemma discover_file_result:
  assumes "prefix (input_folder self) r"
  shows "fs (snd (discover_file self r f documents w)) = fs w
         \<and> (check_returns self (fs w) (r @ [f]) \<longrightarrow>
              fst (discover_file self r f documents w)
                = Inr (documents @ emitted self (fs w) (r @ [f])))
         \<and> (\<not> check_returns self (fs w) (r @ [f]) \<longrightarrow>
              (\<exists>e. fst (discover_file self r f documents w) = Inl e))"
proof (cases "is_supported (r @ [f])")
  case False
  then show ?thesis by (simp add: discover_file_def emitted_def check_returns_def)
next
  case True
  from output_path_for_supported[OF assms True]
  obtain outp where o: "output_path_for self (r @ [f]) = Inr outp" by blast
  show ?thesis
  proof (cases "Path_exists (fs w) outp")
    case (Inl e)
    with True o show ?thesis
      by (simp add: discover_file_def check_returns_def output_check_def)
  next
    case (Inr b)
    from Path_exists_value[OF Inr] have "b = exists (fs w) outp" .
    with True o Inr show ?thesis
      by (simp add: discover_file_def check_returns_def output_check_def emitted_def)
  qed
qed

lemma discover_files_result:
  assumes "prefix (input_folder self) r"
  shows "fs (snd (discover_files self r files documents w)) = fs w
         \<and> ((\<forall>f \<in> set files. check_returns self (fs w) (r @ [f])) \<longrightarrow>
              fst (discover_files self r files documents w)
                = Inr (documents @ concat (map (\<lambda>f. emitted self (fs w) (r @ [f])) files)))
         \<and> (\<not> (\<forall>f \<in> set files. check_returns self (fs w) (r @ [f])) \<longrightarrow>
              (\<exists>e. fst (discover_files self r files documents w) = Inl e))"
proof (induction files arbitrary: documents w)
  case Nil
  then show ?case by simp
next
  case (Cons f files)
  obtain res w1 where d: "discover_file self r f documents w = (res, w1)"
    by (cases "discover_file self r f documents w")
  from discover_file_result[OF assms, of f documents w] d
  have f1: "fs w1 = fs w"
    and r1: "check_returns self (fs w) (r @ [f]) \<longrightarrow>
               res = Inr (documents @ emitted self (fs w) (r @ [f]))"
    and r2: "\<not> check_returns self (fs w) (r @ [f]) \<longrightarrow> (\<exists>e. res = Inl e)"
    by simp_all
  show ?case
  proof (cases "check_returns self (fs w) (r @ [f])")
    case False
    with r2 obtain e where "res = Inl e" by auto
    with d f1 False show ?thesis by simp
  next
    case True
    with r1 have res: "res = Inr (documents @ emitted self (fs w) (r @ [f]))" by simp
    from Cons.IH[of "documents @ emitted self (fs w) (r @ [f])" w1] f1 d res True
    show ?thesis by simp
  qed
qed

lemma files_of_Nil [simp]: "files_of [] = []"
  by (simp add: files_of_def)

lemma files_of_Cons [simp]:
  "files_of ((r, ds, fls) # triples) = map (\<lambda>f. r @ [f]) fls @ files_of triples"
  by (simp add: files_of_def)

lemma discover_walk_result:
  assumes "\<forall>tr \<in> set triples. prefix (input_folder self) (fst tr)"
  shows "fs (snd (discover_walk self triples documents w)) = fs w
         \<and> ((\<forall>p \<in> set (files_of triples). check_returns self (fs w) p) \<longrightarrow>
              fst (discover_walk self triples documents w)
                = Inr (documents @ concat (map (emitted self (fs w)) (files_of triples))))
         \<and> (\<not> (\<forall>p \<in> set (files_of triples). check_returns self (fs w) p) \<longrightarrow>
              (\<exists>e. fst (discover_walk self triples documents w) = Inl e))"
  using assms
proof (induction triples arbitrary: documents w)
  case Nil
  then show ?case by simp
next
  case (Cons tr triples)
  obtain r ds fls where tr: "tr = (r, ds, fls)" by (cases tr)
  with Cons.prems have pr: "prefix (input_folder self) r" by simp
  from Cons.prems have rest: "\<forall>tr \<in> set triples. prefix (input_folder self) (fst tr)"
    by simp
  obtain res w1 where d: "discover_files self r fls documents w = (res, w1)"
    by (cases "discover_files self r fls documents w")
  let ?e = "concat (map (\<lambda>f. emitted self (fs w) (r @ [f])) fls)"
  from discover_files_result[OF pr, of fls documents w] d
  have f1: "fs w1 = fs w"
    and r1: "(\<forall>f \<in> set fls. check_returns self (fs w) (r @ [f])) \<longrightarrow>
               res = Inr (documents @ ?e)"
    and r2: "\<not> (\<forall>f \<in> set fls. check_returns self (fs w) (r @ [f])) \<longrightarrow> (\<exists>e. res = Inl e)"
    by simp_all
  have e: "concat (map (emitted self (fs w)) (map (\<lambda>f. r @ [f]) fls)) = ?e"
    by (simp add: comp_def)
  show ?case
  proof (cases "\<forall>f \<in> set fls. check_returns self (fs w) (r @ [f])")
    case False
    with r2 obtain e where "res = Inl e" by auto
    with d f1 False tr show ?thesis by auto
  next
    case True
    with r1 have res: "res = Inr (documents @ ?e)" by simp
    from Cons.IH[OF rest, of "documents @ ?e" w1] f1 d res True tr e
    show ?thesis by (simp add: ball_Un)
  qed
qed

lemma input_files_missing:
  "Path_exists t (input_folder self) = Inr False \<Longrightarrow> input_files self t = []"
  using Path_exists_value[of t "input_folder self" False]
  by (simp add: input_files_def walk_input_def exists_def)

lemma discover_documents_result:
  "fs (snd (discover_documents self w)) = fs w
   \<and> ((\<exists>b. Path_exists (fs w) (input_folder self) = Inr b)
          \<and> (\<forall>p \<in> set (input_files self (fs w)). check_returns self (fs w) p) \<longrightarrow>
        fst (discover_documents self w)
          = Inr (concat (map (emitted self (fs w)) (input_files self (fs w)))))
   \<and> (\<not> ((\<exists>b. Path_exists (fs w) (input_folder self) = Inr b)
            \<and> (\<forall>p \<in> set (input_files self (fs w)). check_returns self (fs w) p)) \<longrightarrow>
        (\<exists>e. fst (discover_documents self w) = Inl e))"
proof (cases "Path_exists (fs w) (input_folder self)")
  case (Inl e)
  then show ?thesis by (simp add: discover_documents_def)
next
  case (Inr b)
  show ?thesis
  proof (cases b)
    case False
    from Inr have "\<exists>b. Path_exists (fs w) (input_folder self) = Inr b" by blast
    with False Inr input_files_missing[of "fs w" self] show ?thesis
      by (simp add: discover_documents_def)
  next
    case True
    have pr: "\<forall>tr \<in> set (walk_input self (fs w)). prefix (input_folder self) (fst tr)"
      using walk_input_prefix by blast
    obtain res w1 where d: "discover_walk self (walk_input self (fs w)) [] w = (res, w1)"
      by (cases "discover_walk self (walk_input self (fs w)) [] w")
    from discover_walk_result[OF pr, of "[]" w] d
    have f1: "fs w1 = fs w"
      and r1: "(\<forall>p \<in> set (input_files self (fs w)). check_returns self (fs w) p) \<longrightarrow>
               res = Inr (concat (map (emitted self (fs w)) (input_files self (fs w))))"
      and r2: "\<not> (\<forall>p \<in> set (input_files self (fs w)). check_returns self (fs w) p) \<longrightarrow>
               (\<exists>e. res = Inl e)"
      by (simp_all add: input_files_def)
    from Inr have ex: "\<exists>b. Path_exists (fs w) (input_folder self) = Inr b" by blast
    show ?thesis
    proof (cases "\<forall>p \<in> set (input_files self (fs w)). check_returns self (fs w) p")
      case all: True
      with r1 have "res = Inr (concat (map (emitted self (fs w)) (input_files self (fs w))))"
        by simp
      with Inr True d f1 all ex show ?thesis by (simp add: discover_documents_def)
    next
      case nall: False
      with r2 obtain e where "res = Inl e" by auto
      with Inr True d f1 nall show ?thesis by (simp add: discover_documents_def)
    qed
  qed
qed

lemma fs_discover_documents [simp]: "fs (snd (discover_documents self w)) = fs w"
  using discover_documents_result[of self w] by simp

lemma discover_documents_returned:
  assumes "fst (discover_documents self w) = Inr docs"
  shows "docs = concat (map (emitted self (fs w)) (input_files self (fs w)))
         \<and> (\<exists>b. Path_exists (fs w) (input_folder self) = Inr b)
         \<and> (\<forall>p \<in> set (input_files self (fs w)). check_returns self (fs w) p)"
proof (cases "(\<exists>b. Path_exists (fs w) (input_folder self) = Inr b)
          \<and> (\<forall>p \<in> set (input_files self (fs w)). check_returns self (fs w) p)")
  case True
  with discover_documents_result[of self w] assms show ?thesis by simp
next
  case False
  with discover_documents_result[of self w] assms show ?thesis by auto
qed

lemma emitted_other: "x \<noteq> inp \<Longrightarrow> (inp, outp) \<notin> set (emitted self t x)"
  unfolding emitted_def
  by (cases "is_supported x"; cases "output_path_for self x") simp_all

lemma emitted_self:
  "(inp, outp) \<in> set (emitted self t inp) \<longleftrightarrow>
     is_supported inp \<and> output_path_for self inp = Inr outp
     \<and> (overwrite_existing self \<or> \<not> exists t outp)"
  unfolding emitted_def
  by (cases "is_supported inp"; cases "output_path_for self inp") auto

lemma emitted_iff:
  "(inp, outp) \<in> set (emitted self t x) \<longleftrightarrow>
     x = inp \<and> is_supported inp \<and> output_path_for self inp = Inr outp
     \<and> (overwrite_existing self \<or> \<not> exists t outp)"
  using emitted_other[of x inp outp self t] emitted_self[of inp outp self t]
  by (cases "x = inp") simp_all

lemma mem_discovered:
  assumes "fst (discover_documents self w) = Inr docs"
  shows "(inp, outp) \<in> set docs \<longleftrightarrow>
          inp \<in> set (input_files self (fs w)) \<and> is_supported inp
          \<and> output_path_for self inp = Inr outp
          \<and> (overwrite_existing self \<or> \<not> exists (fs w) outp)"
proof -
  from discover_documents_returned[OF assms]
  have d: "docs = concat (map (emitted self (fs w)) (input_files self (fs w)))" by simp
  have "(inp, outp) \<in> set docs \<longleftrightarrow>
          (\<exists>x \<in> set (input_files self (fs w)). (inp, outp) \<in> set (emitted self (fs w) x))"
    unfolding d by simp
  also have "\<dots> \<longleftrightarrow> inp \<in> set (input_files self (fs w)) \<and> is_supported inp
        \<and> output_path_for self inp = Inr outp
        \<and> (overwrite_existing self \<or> \<not> exists (fs w) outp)"
    unfolding emitted_iff by blast
  finally show ?thesis .
qed

section \<open>The files of a walk\<close>

lemma set_files_of:
  "set (files_of triples) = (\<Union>tr \<in> set triples. (\<lambda>f. fst tr @ [f]) ` set (snd (snd tr)))"
  by (induction triples) (auto simp: files_of_def)

lemma files_of_concat: "set (files_of (concat xs)) = (\<Union>x \<in> set xs. set (files_of x))"
  by (simp add: set_files_of)

lemma set_tree_files_Dir:
  "set (tree_files tp (Dir es))
     = (\<lambda>e. tp @ [fst e]) ` {e \<in> set es. is_File (snd e)}
       \<union> (\<Union>e \<in> set es. set (tree_files (tp @ [fst e]) (snd e)))"
  by (auto simp: tree_files_def set_files_of)

lemma tree_files_File [simp]: "tree_files tp (File c) = []"
  by (simp add: tree_files_def)

lemma tree_files_form: "p \<in> set (tree_files tq n) \<Longrightarrow> \<exists>rel f. p = tq @ rel @ [f]"
proof -
  assume "p \<in> set (tree_files tq n)"
  then obtain r ds fls f where m: "(r, ds, fls) \<in> set (tree_walk tq n)" and p: "p = r @ [f]"
    by (auto simp: tree_files_def set_files_of)
  from tree_walk_prefix[OF m] obtain rel where "r = tq @ rel" by (auto simp: prefix_def)
  with p show ?thesis by simp
qed


text \<open>
  The walk of the program finds the files of the tree that lie in a directory whose joined
  string is shorter than \<open>PATH_MAX\<close>.
\<close>

lemma joined_step:
  "joined (s @ ''/'' @ x) (drop (length (tp @ [x])) (butlast (tp @ [x] @ rel @ [f])))
     = joined s (drop (length tp) (butlast (tp @ [x] @ rel @ [f])))"
proof -
  have "butlast (tp @ [x] @ rel @ [f]) = tp @ [x] @ rel"
    by (simp add: butlast_append)
  then show ?thesis by (simp add: joined_def)
qed

lemma length_joined: "length s \<le> length (joined s rel)"
  by (simp add: joined_def)

lemma set_files_of_os_walk:
  "set (files_of (os_walk s tp n))
     = {p \<in> set (tree_files tp n). length (joined s (drop (length tp) (butlast p))) < PATH_MAX}"
proof (induction s tp n rule: os_walk.induct)
  case (1 s tp c)
  then show ?case by simp
next
  case (2 s tp es)
  show ?case
  proof (cases "PATH_MAX \<le> length s")
    case True
    have "\<not> length (joined s rel) < PATH_MAX" for rel
      using True length_joined[of s rel] by simp
    with True show ?thesis by simp
  next
    case False
    let ?own = "(\<lambda>e. tp @ [fst e]) ` {e \<in> set es. is_File (snd e)}"
    have l: "set (files_of (os_walk s tp (Dir es)))
               = ?own \<union> (\<Union>e \<in> set es. set (files_of (os_walk (s @ ''/'' @ fst e) (tp @ [fst e]) (snd e))))"
      using False by (auto simp: files_of_concat)
    have sub: "set (files_of (os_walk (s @ ''/'' @ fst e) (tp @ [fst e]) (snd e)))
               = {p \<in> set (tree_files (tp @ [fst e]) (snd e)).
                    length (joined s (drop (length tp) (butlast p))) < PATH_MAX}"
      if e: "e \<in> set es" for e
    proof -
      have "length (joined (s @ ''/'' @ fst e) (drop (length (tp @ [fst e])) (butlast p)))
              = length (joined s (drop (length tp) (butlast p)))"
        if "p \<in> set (tree_files (tp @ [fst e]) (snd e))" for p
      proof -
        from tree_files_form[OF that] obtain rel f where "p = (tp @ [fst e]) @ rel @ [f]"
          by blast
        then have "p = tp @ [fst e] @ rel @ [f]" by simp
        then show ?thesis by (simp only: joined_step)
      qed
      with "2.IH"[OF False e] show ?thesis by auto
    qed
    have own: "length (joined s (drop (length tp) (butlast p))) < PATH_MAX" if "p \<in> ?own" for p
      using that False by (auto simp: joined_def)
    have "{p \<in> set (tree_files tp (Dir es)).
             length (joined s (drop (length tp) (butlast p))) < PATH_MAX}
            = ?own \<union> (\<Union>e \<in> set es. {p \<in> set (tree_files (tp @ [fst e]) (snd e)).
                    length (joined s (drop (length tp) (butlast p))) < PATH_MAX})"
      using own by (auto simp: set_tree_files_Dir)
    with l sub show ?thesis by simp
  qed
qed

lemma set_input_files:
  "set (input_files self t)
     = {p \<in> files_at (input_folder self) t. length (walk_string self (parent p)) < PATH_MAX}"
  by (simp add: input_files_def walk_input_def files_at_def walk_string_def parent_def
        set_files_of_os_walk split: option.splits)



lemma stat_at_errors:
  "stat_at t p = Inl e \<Longrightarrow> e = ENOENT \<or> e = ENOTDIR \<or> e = ENAMETOOLONG"
  by (induction t p rule: stat_at.induct) (auto split: if_splits option.splits)

lemma stat_at_short:
  "\<forall>x \<in> set p. length x \<le> NAME_MAX \<Longrightarrow> stat_at t p \<noteq> Inl ENAMETOOLONG"
  by (induction t p rule: stat_at.induct) (auto split: if_splits option.splits)

lemma Path_exists_within_limits:
  assumes "\<forall>x \<in> set p. length x \<le> NAME_MAX" and "length (path_str p) < PATH_MAX"
  shows "Path_exists t p = Inr (exists t p)"
proof (cases "stat_at t p")
  case (Inl e)
  with stat_at_errors[OF Inl] stat_at_short[OF assms(1), of t]
  have e: "e = ENOENT \<or> e = ENOTDIR" by auto
  from stat_at_missing[OF Inl e] have "\<not> exists t p" by (simp add: exists_def)
  with Inl e assms(2) show ?thesis
    by (auto simp: Path_exists_def Path_test_def os_stat_def)
next
  case (Inr n)
  from stat_at_lookup[OF Inr] have "exists t p" by (simp add: exists_def)
  with Inr assms(2) show ?thesis
    by (simp add: Path_exists_def Path_test_def os_stat_def)
qed





section \<open>How a run changes the directory tree\<close>

lemma set_update_subset: "set (AList.update k v al) \<subseteq> insert (k, v) (set al)"
  by (induction al) auto

lemma set_tree_files_shift:
  "set (tree_files (q @ tp) n) = (@) q ` set (tree_files tp n)"
proof (induction tp n rule: tree_walk.induct)
  case (1 tp c)
  then show ?case by simp
next
  case (2 tp es)
  have "(\<Union>e \<in> set es. set (tree_files ((q @ tp) @ [fst e]) (snd e)))
          = (\<Union>e \<in> set es. (@) q ` set (tree_files (tp @ [fst e]) (snd e)))"
    using "2.IH" by simp
  then show ?case
    by (simp add: set_tree_files_Dir image_Un image_UN image_image)
qed

lemma set_tree_files_rel: "set (tree_files r n) = (@) r ` set (tree_files [] n)"
  using set_tree_files_shift[of r "[]" n] by simp

lemma files_at_Nil: "files_at [] t = set (tree_files [] t)"
  by (simp add: files_at_def)

lemma files_at_File [simp]: "files_at r (File c) = {}"
  by (cases r) (simp_all add: files_at_def)

lemma files_at_empty_Dir [simp]: "files_at r (Dir []) = {}"
  by (cases r) (simp_all add: files_at_def set_tree_files_Dir)

lemma files_at_Cons:
  "files_at (x # zs) (Dir es)
     = (case map_of es x of None \<Rightarrow> {} | Some n \<Rightarrow> (#) x ` files_at zs n)"
proof (cases "map_of es x")
  case None
  then show ?thesis by (simp add: files_at_def)
next
  case (Some n)
  show ?thesis
  proof (cases "lookup n zs")
    case None
    with Some show ?thesis by (simp add: files_at_def)
  next
    case (Some m)
    have "set (tree_files (x # zs) m) = (#) x ` set (tree_files zs m)"
      using set_tree_files_shift[of "[x]" zs m] by simp
    with Some \<open>map_of es x = Some n\<close> show ?thesis by (simp add: files_at_def)
  qed
qed

lemma files_at_Nil_Dir:
  "files_at [] (Dir es)
     = (\<lambda>e. [fst e]) ` {e \<in> set es. is_File (snd e)}
       \<union> (\<Union>e \<in> set es. (#) (fst e) ` files_at [] (snd e))"
proof -
  have "set (tree_files [fst e] (snd e)) = (#) (fst e) ` set (tree_files [] (snd e))" for e :: "string \<times> node"
    using set_tree_files_shift[of "[fst e]" "[]" "snd e"] by simp
  then show ?thesis
    by (simp add: files_at_Nil set_tree_files_Dir)
qed

lemma lookup_update_Cons:
  "lookup (Dir (AList.update x n' es)) (z # zs)
     = (if z = x then lookup n' zs else lookup (Dir es) (z # zs))"
  by (simp add: update_conv')

lemma grows_refl: "grows P t t"
  by (simp add: grows_def)

lemma grows_mono: "grows P t t' \<Longrightarrow> P \<subseteq> Q \<Longrightarrow> grows Q t t'"
  unfolding grows_def by blast

lemma grows_trans: "grows P t t' \<Longrightarrow> grows Q t' t'' \<Longrightarrow> grows (P \<union> Q) t t''"
  unfolding grows_def by blast

lemma grows_exists: "grows P t t' \<Longrightarrow> exists t q \<Longrightarrow> exists t' q"
  unfolding grows_def by blast

lemma grows_files: "grows P t t' \<Longrightarrow> files_at r t' \<subseteq> files_at r t \<union> P"
  unfolding grows_def by blast

text \<open>Replacing (or adding) the entry \<open>x\<close> of a directory by a directory that grew.\<close>

lemma grows_child:
  assumes g: "grows Q (case map_of es x of None \<Rightarrow> Dir [] | Some n \<Rightarrow> n) n'"
    and d: "is_Dir n'"
  shows "grows ((#) x ` Q) (Dir es) (Dir (AList.update x n' es))"
proof -
  let ?n0 = "case map_of es x of None \<Rightarrow> Dir [] | Some n \<Rightarrow> n"
  let ?t' = "Dir (AList.update x n' es)"
  have ex: "exists ?t' q" if e: "exists (Dir es) q" for q
  proof (cases q)
    case Nil
    then show ?thesis by (simp add: exists_def)
  next
    case (Cons z zs)
    show ?thesis
    proof (cases "z = x")
      case False
      with e Cons show ?thesis by (simp add: exists_def update_conv')
    next
      case True
      with e Cons obtain n where n: "map_of es x = Some n" and "exists n zs"
        by (auto simp: exists_def split: option.splits)
      with g have "exists n' zs" by (auto dest: grows_exists)
      with True Cons show ?thesis by (simp add: exists_def update_conv')
    qed
  qed
  have sub0: "(#) x ` files_at zs ?n0 \<subseteq> files_at (x # zs) (Dir es)" for zs
    by (cases "map_of es x") (simp_all add: files_at_Cons)
  have fl: "files_at r ?t' \<subseteq> files_at r (Dir es) \<union> (#) x ` Q" for r
  proof (cases r)
    case Nil
    show ?thesis
    proof
      fix p assume "p \<in> files_at r ?t'"
      with Nil consider e where "e \<in> set (AList.update x n' es)" "is_File (snd e)" "p = [fst e]"
        | e q where "e \<in> set (AList.update x n' es)" "q \<in> files_at [] (snd e)" "p = fst e # q"
        by (auto simp: files_at_Nil_Dir)
      then show "p \<in> files_at r (Dir es) \<union> (#) x ` Q"
      proof cases
        case 1
        from d 1 have "e \<noteq> (x, n')" by (cases n') auto
        with 1 set_update_subset[of x n' es] have "e \<in> set es" by blast
        with 1 Nil show ?thesis by (auto simp: files_at_Nil_Dir)
      next
        case 2
        show ?thesis
        proof (cases "e = (x, n')")
          case False
          with 2 set_update_subset[of x n' es] have "e \<in> set es" by blast
          with 2 Nil show ?thesis by (auto simp: files_at_Nil_Dir)
        next
          case True
          with 2 have "q \<in> files_at [] n'" by simp
          with grows_files[OF g, of "[]"] have "q \<in> files_at [] ?n0 \<or> q \<in> Q" by blast
          then show ?thesis
          proof
            assume "q \<in> Q"
            with 2 True show ?thesis by simp
          next
            assume "q \<in> files_at [] ?n0"
            with sub0[of "[]"] have "x # q \<in> files_at [x] (Dir es)" by blast
            then obtain n where n: "map_of es x = Some n" and qn: "q \<in> files_at [] n"
              by (auto simp: files_at_Cons split: option.splits)
            from n have "(x, n) \<in> set es" by (rule map_of_SomeD)
            with qn have "x # q \<in> files_at [] (Dir es)"
              by (force simp: files_at_Nil_Dir)
            with 2 True Nil show ?thesis by simp
          qed
        qed
      qed
    qed
  next
    case (Cons z zs)
    show ?thesis
    proof (cases "z = x")
      case False
      with Cons show ?thesis by (simp add: files_at_Cons update_conv')
    next
      case True
      have "files_at (x # zs) ?t' = (#) x ` files_at zs n'"
        by (simp add: files_at_Cons update_conv')
      also have "\<dots> \<subseteq> (#) x ` (files_at zs ?n0 \<union> Q)"
        using grows_files[OF g, of zs] by blast
      also have "\<dots> \<subseteq> files_at (x # zs) (Dir es) \<union> (#) x ` Q"
        using sub0[of zs] by blast
      finally show ?thesis using True Cons by simp
    qed
  qed
  from ex fl show ?thesis unfolding grows_def by blast
qed

text \<open>Writing the file \<open>x\<close> into a directory where \<open>x\<close> is no directory.\<close>

lemma grows_child_file:
  assumes "\<And>es'. map_of es x \<noteq> Some (Dir es')"
  shows "grows {[x]} (Dir es) (Dir (AList.update x (File c) es))"
proof -
  let ?t' = "Dir (AList.update x (File c) es)"
  have ex: "exists ?t' q" if e: "exists (Dir es) q" for q
  proof (cases q)
    case Nil
    then show ?thesis by (simp add: exists_def)
  next
    case (Cons z zs)
    show ?thesis
    proof (cases "z = x")
      case False
      with e Cons show ?thesis by (simp add: exists_def update_conv')
    next
      case True
      with e Cons obtain n where n: "map_of es x = Some n" and l: "lookup n zs \<noteq> None"
        by (auto simp: exists_def split: option.splits)
      from n assms obtain c0 where "n = File c0" by (cases n) auto
      with l have "zs = []" by (cases zs) simp_all
      with True Cons show ?thesis by (simp add: exists_def update_conv')
    qed
  qed
  have fl: "files_at r ?t' \<subseteq> files_at r (Dir es) \<union> {[x]}" for r
  proof (cases r)
    case Nil
    show ?thesis
    proof
      fix p assume "p \<in> files_at r ?t'"
      with Nil consider e where "e \<in> set (AList.update x (File c) es)" "is_File (snd e)" "p = [fst e]"
        | e q where "e \<in> set (AList.update x (File c) es)" "q \<in> files_at [] (snd e)" "p = fst e # q"
        by (auto simp: files_at_Nil_Dir)
      then show "p \<in> files_at r (Dir es) \<union> {[x]}"
      proof cases
        case 1
        show ?thesis
        proof (cases "e = (x, File c)")
          case True
          with 1 show ?thesis by simp
        next
          case False
          with 1 set_update_subset[of x "File c" es] have "e \<in> set es" by blast
          with 1 Nil show ?thesis by (auto simp: files_at_Nil_Dir)
        qed
      next
        case 2
        then have "e \<noteq> (x, File c)" by auto
        with 2 set_update_subset[of x "File c" es] have "e \<in> set es" by blast
        with 2 Nil show ?thesis by (auto simp: files_at_Nil_Dir)
      qed
    qed
  next
    case (Cons z zs)
    then show ?thesis
      by (cases "z = x") (auto simp: files_at_Cons update_conv' split: option.splits)
  qed
  from ex fl show ?thesis unfolding grows_def by blast
qed

lemma mkdir_at_grows: "mkdir_at t p = Inr t' \<Longrightarrow> grows {} t t' \<and> is_Dir t'"
proof (induction t p arbitrary: t' rule: mkdir_at.induct)
  case (1 n)
  then show ?case by simp
next
  case (2 c x xs)
  then show ?case by simp
next
  case (3 es x xs)
  from "3.prems" have short: "\<not> NAME_MAX < length x" by (auto split: if_splits)
  show ?case
  proof (cases "map_of es x")
    case None
    with "3.prems" short have t': "t' = Dir (AList.update x (Dir []) es)"
      by (auto split: if_splits)
    from None have "grows {} (case map_of es x of None \<Rightarrow> Dir [] | Some n \<Rightarrow> n) (Dir [])"
      by (simp add: grows_refl)
    from grows_child[OF this] t' show ?thesis by simp
  next
    case (Some n)
    with "3.prems" short obtain n' where n': "mkdir_at n xs = Inr n'"
      and t': "t' = Dir (AList.update x n' es)"
      by (auto split: sum.splits)
    from "3.IH"[OF short Some n'] have g: "grows {} n n'" and d: "is_Dir n'" by simp_all
    from g Some have "grows {} (case map_of es x of None \<Rightarrow> Dir [] | Some n \<Rightarrow> n) n'" by simp
    from grows_child[OF this d] t' show ?thesis by simp
  qed
qed

lemma os_mkdir_grows: "os_mkdir t p = Inr t' \<Longrightarrow> grows {} t t'"
  by (auto simp: os_mkdir_def split: if_splits dest: mkdir_at_grows)

lemma tree_of_mkdir_handler [simp]: "tree_of (mkdir_handler e p t) = t"
  by (simp add: mkdir_handler_def tree_of_def split: sum.splits)

lemma grows_mkdir_leaf: "grows {} t (tree_of (mkdir_leaf p t))"
proof (cases "os_mkdir t p")
  case (Inl e)
  show ?thesis
  proof (cases "e = ENOENT")
    case True
    with Inl show ?thesis by (simp add: mkdir_leaf_def tree_of_def grows_refl)
  next
    case False
    with Inl show ?thesis by (simp add: mkdir_leaf_def grows_refl)
  qed
next
  case (Inr t')
  with os_mkdir_grows[OF Inr] show ?thesis by (simp add: mkdir_leaf_def tree_of_def)
qed

lemma grows_mkdir_p: "grows {} t (tree_of (mkdir_p p t))"
proof (induction p t rule: mkdir_p.induct)
  case (1 p t)
  show ?case
  proof (cases "os_mkdir t p")
    case (Inr t')
    then have "mkdir_p p t = Inr t'" by (subst mkdir_p.simps) simp
    with os_mkdir_grows[OF Inr] show ?thesis by (simp add: tree_of_def)
  next
    case (Inl e)
    show ?thesis
    proof (cases "e = ENOENT \<and> p \<noteq> []")
      case False
      show ?thesis
      proof (cases "e = ENOENT")
        case e: True
        with False Inl have "mkdir_p p t = Inl (os_error e p, t)"
          by (subst mkdir_p.simps) simp
        then show ?thesis by (simp add: tree_of_def grows_refl)
      next
        case e: False
        with Inl have "mkdir_p p t = mkdir_handler e p t"
          by (subst mkdir_p.simps) simp
        then show ?thesis by (simp add: grows_refl)
      qed
    next
      case True
      with "1.IH"[OF Inl] have g1: "grows {} t (tree_of (mkdir_p (parent p) t))" by simp
      show ?thesis
      proof (cases "mkdir_p (parent p) t")
        case l: (Inl x)
        with Inl True have "mkdir_p p t = Inl x" by (subst mkdir_p.simps) simp
        with l g1 show ?thesis by simp
      next
        case r: (Inr t1)
        with Inl True have m: "mkdir_p p t = mkdir_leaf p t1" by (subst mkdir_p.simps) simp
        from r g1 have "grows {} t t1" by (simp add: tree_of_def)
        from grows_trans[OF this grows_mkdir_leaf[of t1 p]] m show ?thesis by simp
      qed
    qed
  qed
qed

lemma grows_mkdir_p_Inr: "mkdir_p p t = Inr t' \<Longrightarrow> grows {} t t'"
  using grows_mkdir_p[of t p] by (simp add: tree_of_def)

lemma grows_mkdir_p_Inl: "mkdir_p p t = Inl (e, t') \<Longrightarrow> grows {} t t'"
  using grows_mkdir_p[of t p] by (simp add: tree_of_def)

lemma put_file_is_Dir: "put_file p c t = Inr t' \<Longrightarrow> is_Dir t'"
  by (cases "(p, c, t)" rule: put_file.cases)
    (auto split: sum.splits option.splits node.splits if_splits)

lemma grows_put_file: "put_file p c t = Inr t' \<Longrightarrow> grows {p} t t'"
proof (induction p c t arbitrary: t' rule: put_file.induct)
  case (1 c n)
  then show ?case by simp
next
  case (2 x xs c c')
  then show ?case by simp
next
  case (3 x c es)
  from "3.prems" have nd: "\<And>es'. map_of es x \<noteq> Some (Dir es')"
    and t': "t' = Dir (AList.update x (File c) es)"
    by (auto split: option.splits node.splits if_splits)
  from grows_child_file[OF nd, of c] t' show ?case by simp
next
  case (4 x y ys c es)
  from "4.prems" have short: "\<not> NAME_MAX < length x" by (auto split: if_splits)
  with "4.prems" obtain n n' where n: "map_of es x = Some n"
    and n': "put_file (y # ys) c n = Inr n'"
    and t': "t' = Dir (AList.update x n' es)"
    by (auto split: option.splits sum.splits)
  from "4.IH"[OF short n n'] have "grows {y # ys} n n'" .
  with n have "grows {y # ys} (case map_of es x of None \<Rightarrow> Dir [] | Some n \<Rightarrow> n) n'" by simp
  from grows_child[OF this put_file_is_Dir[OF n']] t' show ?case by simp
qed

lemma put_file_lookup: "put_file p c t = Inr t' \<Longrightarrow> lookup t' p = Some (File c)"
proof (induction p c t arbitrary: t' rule: put_file.induct)
  case (1 c n)
  then show ?case by simp
next
  case (2 x xs c c')
  then show ?case by simp
next
  case (3 x c es)
  then show ?case by (auto simp: update_conv' split: option.splits node.splits if_splits)
next
  case (4 x y ys c es)
  from "4.prems" have short: "\<not> NAME_MAX < length x" by (auto split: if_splits)
  with "4.prems" obtain n n' where n: "map_of es x = Some n"
    and n': "put_file (y # ys) c n = Inr n'"
    and t': "t' = Dir (AList.update x n' es)"
    by (auto split: option.splits sum.splits)
  from "4.IH"[OF short n n'] t' show ?case by (simp add: update_conv')
qed

lemma put_file_names: "put_file p c t = Inr t' \<Longrightarrow> list_all (\<lambda>x. length x \<le> NAME_MAX) p"
proof (induction p c t arbitrary: t' rule: put_file.induct)
  case (1 c n)
  then show ?case by simp
next
  case (2 x xs c c')
  then show ?case by simp
next
  case (3 x c es)
  then show ?case by (auto split: if_splits)
next
  case (4 x y ys c es)
  from "4.prems" have short: "\<not> NAME_MAX < length x" by (auto split: if_splits)
  with "4.prems" obtain n n' where n: "map_of es x = Some n"
    and n': "put_file (y # ys) c n = Inr n'"
    by (auto split: option.splits sum.splits)
  from "4.IH"[OF short n n'] short show ?case by simp
qed

text \<open>
  Writing a file: whether it fails or not, the tree grows by at most the path; when it
  succeeds, the path exists afterwards and is one the operating system takes.
\<close>

lemma grows_write_file: "grows {p} t (tree_of (write_file L p c t))"
proof (cases "os_open_w t p")
  case (Inl e)
  then show ?thesis by (simp add: write_file_def tree_of_def grows_refl)
next
  case (Inr t1)
  then have p1: "put_file p [] t = Inr t1" by (auto simp: os_open_w_def split: if_splits)
  from grows_put_file[OF p1] have g1: "grows {p} t t1" .
  show ?thesis
  proof (cases "utf8_encode L c")
    case (Inl e)
    with Inr g1 show ?thesis by (simp add: write_file_def tree_of_def)
  next
    case b: (Inr bytes)
    show ?thesis
    proof (cases "put_file p bytes t1")
      case (Inl e)
      with Inr b g1 show ?thesis by (simp add: write_file_def tree_of_def)
    next
      case t2: (Inr t2)
      from grows_trans[OF g1 grows_put_file[OF t2]] Inr b t2 show ?thesis
        by (simp add: write_file_def tree_of_def)
    qed
  qed
qed

lemma write_file_written:
  assumes "write_file L p c t = Inr t'"
  shows "exists t' p \<and> within_limits p"
proof -
  from assms obtain t1 bytes where o: "os_open_w t p = Inr t1"
    and t2: "put_file p bytes t1 = Inr t'"
    by (auto simp: write_file_def split: sum.splits)
  from o have l: "length (path_str p) < PATH_MAX"
    by (auto simp: os_open_w_def split: if_splits)
  from put_file_lookup[OF t2] put_file_names[OF t2] l show ?thesis
    by (simp add: exists_def within_limits_def)
qed

lemma fs_validate_input [simp]: "fs (snd (validate_input inp w)) = fs w"
  by (simp add: validate_input_def split: sum.splits)

lemma fs_extract_text [simp]: "fs (snd (extract_text L conv inp w)) = fs w"
  by (auto simp: extract_text_def mobi_extract_text_def mobi_primary_def Let_def
        split: sum.splits option.splits prod.splits)

lemma write_output_effect:
  "grows {outp} (fs w) (fs (snd (write_output L body outp w)))
   \<and> (fst (write_output L body outp w)
        \<longrightarrow> exists (fs (snd (write_output L body outp w))) outp \<and> within_limits outp)"
proof (cases "mkdir_p (parent outp) (fs w)")
  case (Inl x)
  obtain e t1 where x: "x = (e, t1)" by (cases x)
  from grows_mkdir_p_Inl[OF Inl[unfolded x]] have "grows {outp} (fs w) t1"
    by (rule grows_mono) simp
  with Inl x show ?thesis by (simp add: write_output_def)
next
  case (Inr t1)
  from grows_mkdir_p_Inr[OF Inr] have g1: "grows {} (fs w) t1" .
  from grows_trans[OF g1 grows_write_file[of outp t1 L body]]
  have g: "grows {outp} (fs w) (tree_of (write_file L outp body t1))" by simp
  show ?thesis
  proof (cases "write_file L outp body t1")
    case (Inl x)
    obtain e t2 where x: "x = (e, t2)" by (cases x)
    with Inl Inr g show ?thesis by (simp add: write_output_def tree_of_def)
  next
    case t2: (Inr t2)
    with Inr g write_file_written[OF t2] show ?thesis
      by (simp add: write_output_def tree_of_def)
  qed
qed

lemma convert_effect:
  "grows {outp} (fs w) (fs (snd (convert L conv inp outp w)))
   \<and> (fst (convert L conv inp outp w) = Inr True
        \<longrightarrow> exists (fs (snd (convert L conv inp outp w))) outp \<and> within_limits outp)"
proof -
  obtain x w1 where x: "extract_text L conv inp w = (x, w1)"
    by (cases "extract_text L conv inp w")
  from fs_extract_text[of L conv inp w] x have f: "fs w1 = fs w" by simp
  show ?thesis
  proof (cases x)
    case (Inl e)
    with x f show ?thesis by (simp add: convert_def grows_refl)
  next
    case (Inr body)
    show ?thesis
    proof (cases "body = []")
      case True
      with x f Inr show ?thesis by (simp add: convert_def grows_refl)
    next
      case False
      obtain b w2 where o: "write_output L body outp w1 = (b, w2)"
        by (cases "write_output L body outp w1")
      from write_output_effect[of outp w1 L body] o f
      have "grows {outp} (fs w) (fs w2)" "b \<longrightarrow> exists (fs w2) outp \<and> within_limits outp"
        by simp_all
      with x Inr False o show ?thesis by (simp add: convert_def)
    qed
  qed
qed

lemma safe_convert_effect:
  "grows {outp} (fs w) (fs (snd (safe_convert L conv inp outp w)))
   \<and> (fst (fst (safe_convert L conv inp outp w))
        \<longrightarrow> exists (fs (snd (safe_convert L conv inp outp w))) outp \<and> within_limits outp)"
proof -
  obtain v w1 where v: "validate_input inp w = (v, w1)"
    by (cases "validate_input inp w")
  from fs_validate_input[of inp w] v have f: "fs w1 = fs w" by simp
  show ?thesis
  proof (cases "v = Inr True")
    case False
    with v f show ?thesis
      by (cases v) (auto simp: safe_convert_def safe_convert_with_def grows_refl)
  next
    case True
    obtain c w2 where c: "convert L conv inp outp w1 = (c, w2)"
      by (cases "convert L conv inp outp w1")
    from convert_effect[of outp w1 L conv inp] c f
    have g: "grows {outp} (fs w) (fs w2)"
      and e: "c = Inr True \<longrightarrow> exists (fs w2) outp \<and> within_limits outp"
      by simp_all
    from convert_returns[of L conv inp outp w1] c obtain b where b: "c = Inr b" by auto
    with v True c g e show ?thesis
      by (cases b) (simp_all add: safe_convert_def safe_convert_with_def)
  qed
qed

lemma convert_single_effect:
  "grows {outp} (fs w) (fs (snd (convert_single L self inp outp w)))
   \<and> (success (fst (convert_single L self inp outp w))
        \<longrightarrow> exists (fs (snd (convert_single L self inp outp w))) outp \<and> within_limits outp)"
proof (cases "get_converter inp (preserve_structure self)")
  case None
  then show ?thesis
    by (simp add: convert_single_no_converter grows_refl)
next
  case (Some conv)
  show ?thesis
  proof (cases "mkdir_p (parent outp) (fs w)")
    case (Inl x)
    obtain e t where x: "x = (e, t)" by (cases x)
    from grows_mkdir_p_Inl[OF Inl[unfolded x]] have "grows {outp} (fs w) t"
      by (rule grows_mono) simp
    with Some Inl x show ?thesis
      by (simp add: convert_single_def convert_single_try_def)
  next
    case (Inr t)
    from grows_mkdir_p_Inr[OF Inr] have g1: "grows {} (fs w) t" .
    obtain b err w2 where s: "safe_convert L conv inp outp (w\<lparr>fs := t\<rparr>) = ((b, err), w2)"
      by (cases "safe_convert L conv inp outp (w\<lparr>fs := t\<rparr>)") auto
    from safe_convert_effect[of outp "w\<lparr>fs := t\<rparr>" L conv inp] s
    have g2: "grows {outp} t (fs w2)" and e: "b \<longrightarrow> exists (fs w2) outp \<and> within_limits outp"
      by simp_all
    from grows_trans[OF g1 g2] have g: "grows {outp} (fs w) (fs w2)" by simp
    from Some Inr s g e show ?thesis
      by (cases b) (simp_all add: convert_single_def convert_single_try_def)
  qed
qed

lemma run_tasks_effect:
  "grows (snd ` set ds) (fs w) (fs (snd (run_tasks L self ds w)))
   \<and> (\<forall>r \<in> set (fst (run_tasks L self ds w)).
         success r \<longrightarrow> exists (fs (snd (run_tasks L self ds w))) (output_path r)
                        \<and> within_limits (output_path r))"
proof (induction ds arbitrary: w)
  case Nil
  then show ?case by (simp add: grows_refl)
next
  case (Cons d ds)
  obtain r w1 where c: "convert_single L self (fst d) (snd d) w = (r, w1)"
    by (cases "convert_single L self (fst d) (snd d) w")
  obtain rs w2 where t: "run_tasks L self ds w1 = (rs, w2)"
    by (cases "run_tasks L self ds w1")
  from convert_single_effect[of "snd d" w L self "fst d"] c
  have g1: "grows {snd d} (fs w) (fs w1)"
    and e1: "success r \<longrightarrow> exists (fs w1) (snd d) \<and> within_limits (snd d)"
    by simp_all
  from Cons.IH[of w1] t
  have g2: "grows (snd ` set ds) (fs w1) (fs w2)"
    and e2: "\<forall>r \<in> set rs. success r \<longrightarrow> exists (fs w2) (output_path r)
                                     \<and> within_limits (output_path r)"
    by simp_all
  from convert_single_invariant[OF c] have o: "output_path r = snd d" by simp
  from e1 o grows_exists[OF g2]
  have e1': "success r \<longrightarrow> exists (fs w2) (output_path r) \<and> within_limits (output_path r)"
    by auto
  from grows_trans[OF g1 g2] have "grows (snd ` set (d # ds)) (fs w) (fs w2)" by simp
  with e1' e2 c t show ?case by simp
qed

lemma rfind_dot_txt: "rfind_dot (stem @ ''.txt'') = int (length stem)"
  by (simp add: rfind_dot_def)

lemma txt_not_supported:
  assumes "stem \<noteq> []"
  shows "\<not> is_supported (p @ [stem @ ''.txt''])"
proof -
  have l: "lower ''.txt'' = ''.txt''" by code_simp
  have m: "map_of CONVERTER_MAP ''.txt'' = None" by (simp add: CONVERTER_MAP_def)
  from assms have "0 < length stem" by simp
  then have "suffix_of (p @ [stem @ ''.txt'']) = ''.txt''"
    by (simp add: suffix_of_def rfind_dot_txt Let_def)
  with l m show ?thesis by (simp add: is_supported_def)
qed

lemma output_not_supported:
  assumes s: "is_supported inp" and o: "output_path_for self inp = Inr outp"
  shows "\<not> is_supported outp"
proof -
  from o obtain rel rel_txt where r: "relative_to inp (input_folder self) = Inr rel"
    and ws: "with_suffix rel ''.txt'' = Inr rel_txt" and outp: "outp = output_folder self @ rel_txt"
    by (auto simp: output_path_for_def split: sum.splits)
  from r have rel: "rel = drop (length (input_folder self)) inp"
    by (auto simp: relative_to_def split: if_splits)
  from ws have nm: "name rel \<noteq> []"
    by (auto simp: with_suffix_def Let_def split: if_splits)
  then have ne: "rel \<noteq> []" by (auto simp: name_def)
  with rel have "name rel = name inp" by (auto simp: name_def)
  then have "suffix_of rel = suffix_of inp" by (rule suffix_of_name)
  with supported_suffix_nonempty[OF s] have old: "suffix_of rel \<noteq> []" by simp
  let ?nm = "name rel"
  let ?i = "rfind_dot ?nm"
  from old have i: "0 < ?i" "?i < int (length ?nm) - 1" and sf: "suffix_of rel = drop (nat ?i) ?nm"
    by (auto simp: suffix_of_def Let_def split: if_splits)
  from i sf have "length ?nm - length (suffix_of rel) = nat ?i" by simp
  with ws nm old have rt: "rel_txt = butlast rel @ [take (nat ?i) ?nm @ ''.txt'']"
    by (auto simp: with_suffix_def Let_def)
  from i have "take (nat ?i) ?nm \<noteq> []" by auto
  from txt_not_supported[OF this, of "output_folder self @ butlast rel"] rt outp
  show ?thesis by simp
qed


section \<open>Running the batch twice\<close>

lemma stat_at_names: "stat_at t p = Inr n \<Longrightarrow> list_all (\<lambda>x. length x \<le> NAME_MAX) p"
  by (induction t p rule: stat_at.induct) (auto split: if_splits option.splits)

lemma Path_exists_True_limits: "Path_exists t p = Inr True \<Longrightarrow> exists t p \<and> within_limits p"
  by (auto simp: Path_exists_def Path_test_def os_stat_def exists_def within_limits_def
        split: sum.splits if_splits dest: stat_at_lookup stat_at_names)

lemma Path_exists_limits: "within_limits p \<Longrightarrow> Path_exists t p = Inr (exists t p)"
  by (rule Path_exists_within_limits) (simp_all add: within_limits_def list_all_iff)

lemma Path_exists_grows:
  assumes "Path_exists t p = Inr True" and "grows P t t'"
  shows "Path_exists t' p = Inr True"
proof -
  from Path_exists_True_limits[OF assms(1)] have "exists t p" "within_limits p" by simp_all
  with grows_exists[OF assms(2)] Path_exists_limits[of p t'] show ?thesis by simp
qed

lemma input_files_grows:
  assumes "grows P t t'" and "p \<in> set (input_files self t')"
  shows "p \<in> set (input_files self t) \<or> p \<in> P"
  using assms grows_files[OF assms(1), of "input_folder self"]
  by (auto simp: set_input_files)

lemma input_files_output:
  assumes "inp \<in> set (input_files self t)" and "is_supported inp"
  shows "\<exists>outp. output_path_for self inp = Inr outp"
proof -
  from assms(1) obtain tr f where tr: "tr \<in> set (walk_input self t)"
    and inp: "inp = fst tr @ [f]"
    by (auto simp: input_files_def set_files_of)
  from walk_input_prefix[OF tr] assms(2) inp show ?thesis
    by (simp add: output_path_for_supported)
qed

text \<open>
  Claim C6, as stated, fails: after the concrete run, in which the DOCX fails and gets no
  output file, a second discovery without overwriting finds the DOCX again.
\<close>

theorem rerun_idempotence_counterexample:
  "\<not> overwrite_existing ex_processor
   \<and> fst (process_all ex_libs ex_processor [] ex_world)
       = Inr \<lparr>successful =
                [\<lparr>input_path = [''in'', ''a.pdf''], output_path = [''out'', ''a.txt''],
                   success = True, error = None\<rparr>,
                 \<lparr>input_path = [''in'', ''d.mobi''], output_path = [''out'', ''d.txt''],
                   success = True, error = None\<rparr>],
              failed =
                [\<lparr>input_path = [''in'', ''c.docx''], output_path = [''out'', ''c.txt''],
                   success = False, error = Some ''Conversion failed''\<rparr>]\<rparr>
   \<and> fst (discover_documents ex_processor (snd (process_all ex_libs ex_processor [] ex_world)))
       = Inr [([''in'', ''c.docx''], [''out'', ''c.txt''])]"
  by code_simp

text \<open>
  Claim C6, amended. When a batch has run without overwriting, a second discovery that
  returns a task list finds only tasks whose conversion failed in the first run: every
  task it emits has a failed result of the first run with the same paths. When no task of
  the first run failed, the second discovery does return, and its task list is empty.
\<close>

theorem rerun_rediscovers_only_failures:
  assumes no: "\<not> overwrite_existing self"
    and run: "process_all L self sched w = (Inr res, w1)"
  shows "(\<forall>docs2. fst (discover_documents self w1) = Inr docs2 \<longrightarrow>
            (\<forall>d \<in> set docs2. \<exists>r \<in> set (failed res).
                input_path r = fst d \<and> output_path r = snd d))
         \<and> (failed res = [] \<longrightarrow> fst (discover_documents self w1) = Inr [])"
proof -
  obtain dres wd where d0: "discover_documents self w = (dres, wd)"
    by (cases "discover_documents self w")
  from run d0 obtain docs1 where dres: "dres = Inr docs1"
    by (cases dres) (auto simp: process_all_def)
  from d0 dres have d1: "fst (discover_documents self w) = Inr docs1" by simp
  from fs_discover_documents[of self w] d0 have fd: "fs wd = fs w" by simp
  from discover_documents_returned[OF d1]
  have docs1: "docs1 = concat (map (emitted self (fs w)) (input_files self (fs w)))"
    and root1: "\<exists>b. Path_exists (fs w) (input_folder self) = Inr b"
    and chk1: "\<forall>p \<in> set (input_files self (fs w)). check_returns self (fs w) p"
    by simp_all
  have facts: "\<exists>rs. grows (snd ` set docs1) (fs w) (fs w1)
       \<and> (\<forall>r \<in> set rs. success r \<longrightarrow>
             exists (fs w1) (output_path r) \<and> within_limits (output_path r))
       \<and> (\<lambda>r. (input_path r, output_path r)) ` set rs = set docs1
       \<and> failed res = filter (\<lambda>r. \<not> success r) rs
       \<and> (docs1 = [] \<longrightarrow> fs w1 = fs w)"
  proof (cases "docs1 = []")
    case True
    with run d0 dres have "w1 = log_to WARNING ''No documents found to convert'' wd"
      and "res = \<lparr>successful = [], failed = []\<rparr>"
      by (simp_all add: process_all_def)
    with fd True have "grows (snd ` set docs1) (fs w) (fs w1)" "fs w1 = fs w"
      "failed res = filter (\<lambda>r. \<not> success r) []"
      by (simp_all add: grows_refl)
    with True show ?thesis by (intro exI[of _ "[]"]) simp
  next
    case False
    obtain b wb where b: "process_batch L self sched docs1 wd = (b, wb)"
      by (cases "process_batch L self sched docs1 wd")
    from run d0 dres False b have "(case b of Inl e \<Rightarrow> (Inl e, wb)
        | Inr all_results \<Rightarrow>
            (Inr \<lparr>successful = filter (\<lambda>r. success r) all_results,
                  failed = filter (\<lambda>r. \<not> success r) all_results\<rparr>, wb)) = (Inr res, w1)"
      by (simp add: process_all_def)
    then obtain rs where rs: "b = Inr rs" and w1: "wb = w1"
      and res: "res = \<lparr>successful = filter (\<lambda>r. success r) rs,
                       failed = filter (\<lambda>r. \<not> success r) rs\<rparr>"
      by (cases b) simp_all
    let ?ds = "as_completed sched docs1"
    let ?wm = "log_to INFO (memory_status L) wd"
    obtain rs' wr where t: "run_tasks L self ?ds ?wm = (rs', wr)"
      by (cases "run_tasks L self ?ds ?wm")
    from False b rs w1 t have rs': "rs' = rs" and fw1: "fs w1 = fs wr"
      by (auto simp: process_batch_def Let_def split: if_splits)
    have sd: "set ?ds = set docs1"
      using mset_as_completed[of sched docs1] by (metis set_mset_mset)
    from run_tasks_effect[of ?ds ?wm L self] t rs' fw1 fd sd
    have g: "grows (snd ` set docs1) (fs w) (fs w1)"
      and e: "\<forall>r \<in> set rs. success r \<longrightarrow>
                exists (fs w1) (output_path r) \<and> within_limits (output_path r)"
      by simp_all
    from run_tasks_paths[OF t] sd rs'
    have paths: "(\<lambda>r. (input_path r, output_path r)) ` set rs = set docs1"
      by (metis set_map)
    from g e paths res False show ?thesis by (intro exI[of _ rs]) simp
  qed
  then obtain rs where g: "grows (snd ` set docs1) (fs w) (fs w1)"
    and e: "\<forall>r \<in> set rs. success r \<longrightarrow>
              exists (fs w1) (output_path r) \<and> within_limits (output_path r)"
    and paths: "(\<lambda>r. (input_path r, output_path r)) ` set rs = set docs1"
    and fres: "failed res = filter (\<lambda>r. \<not> success r) rs"
    and same: "docs1 = [] \<longrightarrow> fs w1 = fs w"
    by blast
  have key: "Path_exists (fs w1) outp = Inr True
             \<or> (\<exists>r \<in> set rs. \<not> success r \<and> input_path r = inp \<and> output_path r = outp)"
    if i2: "inp \<in> set (input_files self (fs w1))" and s: "is_supported inp"
      and o: "output_path_for self inp = Inr outp" for inp outp
  proof -
    from input_files_grows[OF g i2]
    have "inp \<in> set (input_files self (fs w)) \<or> inp \<in> snd ` set docs1" .
    moreover have "inp \<notin> snd ` set docs1"
    proof
      assume "inp \<in> snd ` set docs1"
      then obtain inp' where "(inp', inp) \<in> set docs1" by auto
      with mem_discovered[OF d1, of inp' inp]
      have "is_supported inp'" "output_path_for self inp' = Inr inp" by simp_all
      from output_not_supported[OF this] s show False by simp
    qed
    ultimately have i1: "inp \<in> set (input_files self (fs w))" by simp
    with chk1 have "check_returns self (fs w) inp" by blast
    with s o have "case Path_exists (fs w) outp of Inl e \<Rightarrow> False | Inr there \<Rightarrow> True"
      by (simp add: check_returns_def output_check_def)
    then obtain b where b: "Path_exists (fs w) outp = Inr b"
      by (cases "Path_exists (fs w) outp") auto
    show ?thesis
    proof (cases b)
      case True
      with b Path_exists_grows[OF _ g] show ?thesis by simp
    next
      case False
      with Path_exists_value[OF b] have "\<not> exists (fs w) outp" by simp
      with i1 s o mem_discovered[OF d1, of inp outp] have "(inp, outp) \<in> set docs1" by simp
      with paths obtain r where r: "r \<in> set rs" "input_path r = inp" "output_path r = outp"
        by force
      show ?thesis
      proof (cases "success r")
        case True
        with e r have "exists (fs w1) outp" "within_limits outp" by auto
        with Path_exists_limits[of outp "fs w1"] show ?thesis by simp
      next
        case False
        with r show ?thesis by blast
      qed
    qed
  qed
  have part1: "\<exists>r \<in> set (failed res). input_path r = fst d \<and> output_path r = snd d"
    if d2: "fst (discover_documents self w1) = Inr docs2" and d: "d \<in> set docs2" for docs2 d
  proof -
    obtain inp outp where dp: "d = (inp, outp)" by (cases d)
    from d dp mem_discovered[OF d2, of inp outp] no
    have i2: "inp \<in> set (input_files self (fs w1))" and s: "is_supported inp"
      and o: "output_path_for self inp = Inr outp" and ne: "\<not> exists (fs w1) outp"
      by simp_all
    from ne Path_exists_value[of "fs w1" outp True]
    have "Path_exists (fs w1) outp \<noteq> Inr True" by blast
    with key[OF i2 s o] obtain r where "r \<in> set rs" "\<not> success r"
      "input_path r = inp" "output_path r = outp"
      by blast
    with fres dp show ?thesis by (intro bexI[of _ r]) simp_all
  qed
  have part2: "fst (discover_documents self w1) = Inr []" if nf: "failed res = []"
  proof -
    from nf fres have all: "\<forall>r \<in> set rs. success r"
      by (auto simp: filter_empty_conv)
    have root2: "\<exists>b. Path_exists (fs w1) (input_folder self) = Inr b"
    proof -
      from root1 obtain b where b: "Path_exists (fs w) (input_folder self) = Inr b" by blast
      show ?thesis
      proof (cases b)
        case True
        with b have "Path_exists (fs w) (input_folder self) = Inr True" by simp
        from Path_exists_grows[OF this g] show ?thesis by blast
      next
        case False
        with b input_files_missing[of "fs w" self] docs1 have "docs1 = []" by simp
        with same b show ?thesis by auto
      qed
    qed
    have each: "check_returns self (fs w1) p \<and> emitted self (fs w1) p = []"
      if p: "p \<in> set (input_files self (fs w1))" for p
    proof (cases "is_supported p")
      case False
      then show ?thesis by (simp add: check_returns_def emitted_def)
    next
      case True
      from input_files_output[OF p True]
      obtain outp where o: "output_path_for self p = Inr outp" by blast
      from key[OF p True o] all have x: "Path_exists (fs w1) outp = Inr True" by blast
      from Path_exists_value[OF x] have "exists (fs w1) outp" by simp
      with x True o no show ?thesis
        by (simp add: check_returns_def output_check_def emitted_def)
    qed
    then have "concat (map (emitted self (fs w1)) (input_files self (fs w1))) = []"
      by simp
    with discover_documents_result[of self w1] root2 each show ?thesis by simp
  qed
  from part1 part2 show ?thesis by blast
qed

text \<open>
  The witness: the tree whose only input converts, where the second task list is empty,
  and the concrete run, whose second task list holds the failed DOCX.
\<close>

theorem rerun_rediscovers_only_failures_witness:
  "\<not> overwrite_existing ex_processor
   \<and> (\<exists>res w1. process_all ex_libs ex_processor [] ex_good_world = (Inr res, w1)
         \<and> length (successful res) = 1 \<and> failed res = []
         \<and> fst (discover_documents ex_processor w1) = Inr [])
   \<and> (\<exists>res w1 docs2. process_all ex_libs ex_processor [] ex_world = (Inr res, w1)
         \<and> fst (discover_documents ex_processor w1) = Inr docs2
         \<and> docs2 \<noteq> []
         \<and> list_all (\<lambda>d. \<exists>r \<in> set (failed res). input_path r = fst d \<and> output_path r = snd d) docs2)"
proof -
  have no: "\<not> overwrite_existing ex_processor" by (simp add: ex_processor_def)
  have g: "fst (process_all ex_libs ex_processor [] ex_good_world)
       = Inr \<lparr>successful =
                [\<lparr>input_path = [''in'', ''a.pdf''], output_path = [''out'', ''a.txt''],
                   success = True, error = None\<rparr>],
              failed = []\<rparr>"
    by code_simp
  then obtain res w1 where r1: "process_all ex_libs ex_processor [] ex_good_world = (Inr res, w1)"
    and l1: "length (successful res) = 1" "failed res = []"
    by (cases "process_all ex_libs ex_processor [] ex_good_world") auto
  from rerun_rediscovers_only_failures[OF no r1, THEN conjunct2] l1
  have c1: "fst (discover_documents ex_processor w1) = Inr []" by simp
  have "fst (process_all ex_libs ex_processor [] ex_world)
       = Inr \<lparr>successful =
                [\<lparr>input_path = [''in'', ''a.pdf''], output_path = [''out'', ''a.txt''],
                   success = True, error = None\<rparr>,
                 \<lparr>input_path = [''in'', ''d.mobi''], output_path = [''out'', ''d.txt''],
                   success = True, error = None\<rparr>],
              failed =
                [\<lparr>input_path = [''in'', ''c.docx''], output_path = [''out'', ''c.txt''],
                   success = False, error = Some ''Conversion failed''\<rparr>]\<rparr>"
    by code_simp
  then obtain res' w1' where r2: "process_all ex_libs ex_processor [] ex_world = (Inr res', w1')"
    by (cases "process_all ex_libs ex_processor [] ex_world") auto
  have n2: "fst (discover_documents ex_processor (snd (process_all ex_libs ex_processor [] ex_world)))
       = Inr [([''in'', ''c.docx''], [''out'', ''c.txt''])]"
    by code_simp
  with r2 have d2: "fst (discover_documents ex_processor w1')
                      = Inr [([''in'', ''c.docx''], [''out'', ''c.txt''])]"
    by simp
  from rerun_rediscovers_only_failures[OF no r2, THEN conjunct1, rule_format, OF d2]
  have la: "list_all (\<lambda>d. \<exists>r \<in> set (failed res'). input_path r = fst d \<and> output_path r = snd d)
              [([''in'', ''c.docx''], [''out'', ''c.txt''])]"
    by (simp add: list_all_iff)
  from no r1 l1 c1 r2 d2 la show ?thesis by blast
qed

text \<open>
  Not every failed task is found again. Two inputs can share an output path: when the PDF
  converts and the DOCX of the same stem fails, the output of the PDF keeps the DOCX out of
  the second task list. And a text that cannot be encoded leaves its output file behind,
  empty: the task fails, and the second discovery skips it.
\<close>

lemma failed_task_not_found_again:
  "\<not> overwrite_existing ex_processor
   \<and> fst (process_all ex_libs ex_processor []
            \<lparr>fs = Dir [(''in'', Dir [(''a.pdf'', File ''Hello''), (''a.docx'', File ''y'')])],
             logged = []\<rparr>)
       = Inr \<lparr>successful =
                [\<lparr>input_path = [''in'', ''a.pdf''], output_path = [''out'', ''a.txt''],
                   success = True, error = None\<rparr>],
              failed =
                [\<lparr>input_path = [''in'', ''a.docx''], output_path = [''out'', ''a.txt''],
                   success = False, error = Some ''Conversion failed''\<rparr>]\<rparr>
   \<and> fst (discover_documents ex_processor
            (snd (process_all ex_libs ex_processor []
               \<lparr>fs = Dir [(''in'', Dir [(''a.pdf'', File ''Hello''), (''a.docx'', File ''y'')])],
                logged = []\<rparr>)))
       = Inr []
   \<and> fst (process_all (ex_libs\<lparr>utf8_encode := \<lambda>s. Inl (PyExc ''UnicodeEncodeError'' ''surrogates not allowed'')\<rparr>)
            ex_processor [] ex_good_world)
       = Inr \<lparr>successful = [],
              failed =
                [\<lparr>input_path = [''in'', ''a.pdf''], output_path = [''out'', ''a.txt''],
                   success = False, error = Some ''Conversion failed''\<rparr>]\<rparr>
   \<and> fs (snd (process_all (ex_libs\<lparr>utf8_encode := \<lambda>s. Inl (PyExc ''UnicodeEncodeError'' ''surrogates not allowed'')\<rparr>)
            ex_processor [] ex_good_world))
       = Dir [(''in'', Dir [(''a.pdf'', File ''Hello'')]), (''out'', Dir [(''a.txt'', File [])])]
   \<and> fst (discover_documents ex_processor
            (snd (process_all (ex_libs\<lparr>utf8_encode := \<lambda>s. Inl (PyExc ''UnicodeEncodeError'' ''surrogates not allowed'')\<rparr>)
               ex_processor [] ex_good_world)))
       = Inr []"
  by code_simp


end
